theory Spec2Isabelle
  imports Main "HOL-Library.AList"
begin

section \<open>Python values\<close>

text \<open>
  The parser of \<^verbatim>\<open>parsing.py\<close> works on the nested data that a YAML loader returns:
  \<^verbatim>\<open>None\<close>, booleans, integers, strings, lists and dictionaries with string keys
  (\<^verbatim>\<open>Dict[str, Any]\<close> in the signatures). A dictionary is an association list in
  insertion order; a key is looked up with \<^term>\<open>map_of\<close>.
\<close>

datatype pyval =
    PNone
  | PBool bool
  | PInt int
  | PStr string
  | PList "pyval list"
  | PDict "(string \<times> pyval) list"

type_synonym pydict = "(string \<times> pyval) list"

definition has_key :: "pydict \<Rightarrow> string \<Rightarrow> bool" where
  \<comment> \<open>\<^verbatim>\<open>k in d\<close>\<close>
  "has_key d k = (map_of d k \<noteq> None)"

definition dict_get :: "pydict \<Rightarrow> string \<Rightarrow> pyval" where
  \<comment> \<open>\<^verbatim>\<open>d.get(k)\<close>, which is \<^verbatim>\<open>None\<close> for a missing key\<close>
  "dict_get d k = (case map_of d k of Some v \<Rightarrow> v | None \<Rightarrow> PNone)"

definition dict_merge :: "pydict \<Rightarrow> pydict \<Rightarrow> pydict" where
  \<comment> \<open>\<^verbatim>\<open>{**d, **e}\<close>: the pairs of \<open>e\<close> are stored into \<open>d\<close> one after the other,
      a key already there keeps its place and takes the new value\<close>
  "dict_merge d e = fold (\<lambda>(k, v). AList.update k v) e d"

definition seq_elems :: "pyval \<Rightarrow> pyval list option" where
  \<comment> \<open>\<^verbatim>\<open>isinstance(v, Sequence)\<close> holds of lists and of strings; iterating a string
      yields its characters as one-character strings\<close>
  "seq_elems v = (case v of
       PList xs \<Rightarrow> Some xs
     | PStr s \<Rightarrow> Some (map (\<lambda>c. PStr [c]) s)
     | _ \<Rightarrow> None)"

fun truthy :: "pyval \<Rightarrow> bool" where
  "truthy PNone = False"
| "truthy (PBool b) = b"
| "truthy (PInt i) = (i \<noteq> 0)"
| "truthy (PStr s) = (s \<noteq> [])"
| "truthy (PList xs) = (xs \<noteq> [])"
| "truthy (PDict d) = (d \<noteq> [])"

fun vsize :: "pyval \<Rightarrow> nat" where
  "vsize (PList xs) = Suc (sum_list (map vsize xs))"
| "vsize (PDict d) = Suc (sum_list (map (\<lambda>kv. vsize (snd kv)) d))"
| "vsize _ = 0"

text \<open>Decimal rendering of an index, as an f-string does it.\<close>

fun show_nat :: "nat \<Rightarrow> string" where
  "show_nat n =
     (if n < 10 then [char_of (48 + n)]
      else show_nat (n div 10) @ [char_of (48 + n mod 10)])"

declare show_nat.simps [simp del]


section \<open>The data model\<close>

text \<open>
  \<^verbatim>\<open>parsing.py\<close> imports \<^verbatim>\<open>Document\<close>, \<^verbatim>\<open>FileItem\<close>, \<^verbatim>\<open>GlobItem\<close>,
  \<^verbatim>\<open>SiteMap\<close>, \<^verbatim>\<open>TocTree\<close> and \<^verbatim>\<open>UrlItem\<close> from the module \<^verbatim>\<open>api\<close>. What
  the specification leaves open about them is a parameter of the model:
  the built-in default of every grouping option, the validator of every grouping option,
  and the text that \<^verbatim>\<open>str()\<close> gives for a value that is not a string.
\<close>

record api =
  field_default :: "string \<Rightarrow> pyval"
  field_valid :: "string \<Rightarrow> pyval \<Rightarrow> bool"
  str_other :: "pyval \<Rightarrow> string"

definition py_str :: "api \<Rightarrow> pyval \<Rightarrow> string" where
  \<comment> \<open>\<^verbatim>\<open>str(v)\<close>, also what an f-string prints\<close>
  "py_str A v = (case v of PStr s \<Rightarrow> s | _ \<Rightarrow> str_other A v)"

text \<open>
  Modelled from the spec: the three item variants of \<^verbatim>\<open>api\<close>. A \<^verbatim>\<open>FileItem\<close> wraps
  a docname string and a \<^verbatim>\<open>GlobItem\<close> a pattern string (both are looked up and printed
  as that string); a \<^verbatim>\<open>UrlItem\<close> holds a URL string and an optional title string.
\<close>

datatype Item =
    FileItem string
  | GlobItem string
  | UrlItem string "string option"

definition UrlItem_new :: "pyval \<Rightarrow> pyval \<Rightarrow> Item option" where
  \<comment> \<open>Modelled from the spec: the constructor \<^verbatim>\<open>UrlItem(url, title)\<close> of \<^verbatim>\<open>api\<close>;
      \<open>None\<close> when a field has not its declared type (the call is outside any \<^verbatim>\<open>try\<close>)\<close>
  "UrlItem_new url ttl = (case url of
       PStr u \<Rightarrow> (case ttl of
           PNone \<Rightarrow> Some (UrlItem u None)
         | PStr t \<Rightarrow> Some (UrlItem u (Some t))
         | _ \<Rightarrow> None)
     | _ \<Rightarrow> None)"

definition TOCTREE_OPTIONS :: "string list" where
  "TOCTREE_OPTIONS =
     [''caption'', ''hidden'', ''maxdepth'', ''numbered'', ''reversed'', ''titlesonly'']"

text \<open>
  Modelled from the spec: the item-grouping \<^verbatim>\<open>TocTree\<close> of \<^verbatim>\<open>api\<close>, an ordered list
  of items and the six named options, each with a built-in default.
\<close>

record TocTree =
  items :: "Item list"
  caption :: pyval
  hidden :: pyval
  maxdepth :: pyval
  numbered :: pyval
  reversed :: pyval
  titlesonly :: pyval

definition getattr :: "TocTree \<Rightarrow> string \<Rightarrow> pyval" where
  \<comment> \<open>\<^verbatim>\<open>getattr(toctree, key)\<close> for the keys of \<^verbatim>\<open>TOCTREE_OPTIONS\<close>\<close>
  "getattr t k =
     (if k = ''caption'' then caption t
      else if k = ''hidden'' then hidden t
      else if k = ''maxdepth'' then maxdepth t
      else if k = ''numbered'' then numbered t
      else if k = ''reversed'' then reversed t
      else if k = ''titlesonly'' then titlesonly t
      else PNone)"

definition kw_value :: "api \<Rightarrow> pydict \<Rightarrow> string \<Rightarrow> pyval" where
  \<comment> \<open>Modelled from the spec: the value a field of \<^verbatim>\<open>TocTree\<close> takes, the keyword
      argument or else the field's default\<close>
  "kw_value A keywords k =
     (case map_of keywords k of Some v \<Rightarrow> v | None \<Rightarrow> field_default A k)"

definition TocTree_new :: "api \<Rightarrow> Item list \<Rightarrow> pydict \<Rightarrow> TocTree option" where
  \<comment> \<open>Modelled from the spec: the constructor \<^verbatim>\<open>TocTree(items=items, **keywords)\<close> of
      \<^verbatim>\<open>api\<close>; \<open>None\<close> is the \<^verbatim>\<open>TypeError\<close> of a keyword that is not a field of the
      class or of a value that its validator refuses\<close>
  "TocTree_new A its keywords =
     (if list_all (\<lambda>(k, v). k \<in> set TOCTREE_OPTIONS \<and> field_valid A k v) keywords
      then Some \<lparr> items = its,
                  caption = kw_value A keywords ''caption'',
                  hidden = kw_value A keywords ''hidden'',
                  maxdepth = kw_value A keywords ''maxdepth'',
                  numbered = kw_value A keywords ''numbered'',
                  reversed = kw_value A keywords ''reversed'',
                  titlesonly = kw_value A keywords ''titlesonly'' \<rparr>
      else None)"

text \<open>
  Modelled from the spec: \<^verbatim>\<open>Document\<close> of \<^verbatim>\<open>api\<close>, a docname string, an optional
  title string and the ordered groupings; construction checks the two types.
\<close>

record Document =
  docname :: string
  title :: "string option"
  subtrees :: "TocTree list"

definition Document_new :: "pyval \<Rightarrow> pyval \<Rightarrow> TocTree list \<Rightarrow> Document option" where
  \<comment> \<open>Modelled from the spec: the constructor \<^verbatim>\<open>Document(docname, title, subtrees)\<close> of
      \<^verbatim>\<open>api\<close>; \<open>None\<close> is the \<^verbatim>\<open>TypeError\<close> of a docname that is no string or of a
      title that is neither \<^verbatim>\<open>None\<close> nor a string\<close>
  "Document_new name ttl toctrees = (case name of
       PStr s \<Rightarrow> (case ttl of
           PNone \<Rightarrow> Some \<lparr> docname = s, title = None, subtrees = toctrees \<rparr>
         | PStr t \<Rightarrow> Some \<lparr> docname = s, title = Some t, subtrees = toctrees \<rparr>
         | _ \<Rightarrow> None)
     | _ \<Rightarrow> None)"

text \<open>
  Modelled from the spec: \<^verbatim>\<open>SiteMap\<close> of \<^verbatim>\<open>api\<close>, the root document, the metadata
  taken verbatim from the input, and a mapping from docname to document. The root's
  docname is a key from the start: the specification has a nested file entry that
  repeats the root's docname rejected as a duplicate.
\<close>

record SiteMap =
  root :: Document
  meta :: pyval
  docs :: "(string \<times> Document) list"

definition SiteMap_new :: "Document \<Rightarrow> pyval \<Rightarrow> SiteMap" where
  \<comment> \<open>Modelled from the spec: the constructor \<^verbatim>\<open>SiteMap(root, meta)\<close> of \<^verbatim>\<open>api\<close>\<close>
  "SiteMap_new r m = \<lparr> root = r, meta = m, docs = [(docname r, r)] \<rparr>"

definition sm_lookup :: "SiteMap \<Rightarrow> string \<Rightarrow> Document option" where
  \<comment> \<open>Modelled from the spec: \<^verbatim>\<open>site_map[name]\<close> of \<^verbatim>\<open>api\<close>, and \<^verbatim>\<open>name in site_map\<close>
      when it is not \<open>None\<close>\<close>
  "sm_lookup sm name = map_of (docs sm) name"

definition sm_setitem :: "SiteMap \<Rightarrow> string \<Rightarrow> Document \<Rightarrow> SiteMap" where
  \<comment> \<open>Modelled from the spec: \<^verbatim>\<open>site_map[name] = doc\<close> of \<^verbatim>\<open>api\<close>\<close>
  "sm_setitem sm name doc = sm \<lparr> docs := AList.update name doc (docs sm) \<rparr>"

section \<open>Errors\<close>

text \<open>
  Every \<^verbatim>\<open>raise MalformedError(...)\<close> of the source is one constructor, named after
  its message and carrying the values the message interpolates (the path ends with the
  indices the f-string appends).
\<close>

datatype malformed =
    TocNotMapping                        \<comment> \<open>toc is not a mapping\<close>
  | KeyNotFound string string            \<comment> \<open>'file_key' key not found: 'path'\<close>
  | BothKeysFound string                 \<comment> \<open>Both 'subtrees' and 'sections' found: 'path'\<close>
  | SubtreesNotList string               \<comment> \<open>'subtrees' not a non-empty list: 'path'\<close>
  | PartNotMapping string                \<comment> \<open>part not a mapping containing 'sections' key\<close>
  | ItemsNotList string                  \<comment> \<open>'sections' not a non-empty list\<close>
  | ItemNotMapping string                \<comment> \<open>'sections' item not a mapping type\<close>
  | NoLinkKey string                     \<comment> \<open>'sections' item does not contain one of ...\<close>
  | ManyLinkKeys "string list" string    \<comment> \<open>'sections' item contains incompatible keys {...}\<close>
  | IncompatibleKeys string string string
      \<comment> \<open>'sections' item contains incompatible keys 'item_key' and 'other_key'\<close>
  | ToctreeValidation string             \<comment> \<open>toctree validation: path\<close>
  | DocValidation string                 \<comment> \<open>doc validation: path\<close>
  | UsedMultipleTimes string             \<comment> \<open>document file used multiple times: docname\<close>

datatype error =
    MalformedError malformed
  | TypeError string       \<comment> \<open>raised by Python itself or by a constructor outside a \<^verbatim>\<open>try\<close>\<close>
  | IndexError
  | KeyError string
  | AttributeError string
  | RecursionError string  \<comment> \<open>'docname' in site-map multiple times\<close>


section \<open>The parser\<close>

definition DEFAULT_SUBTREES_KEY :: string where "DEFAULT_SUBTREES_KEY = ''subtrees''"
definition DEFAULT_ITEMS_KEY :: string where "DEFAULT_ITEMS_KEY = ''sections''"
definition FILE_KEY :: string where "FILE_KEY = ''file''"
definition GLOB_KEY :: string where "GLOB_KEY = ''glob''"
definition URL_KEY :: string where "URL_KEY = ''url''"

text \<open>
  No caller of \<^verbatim>\<open>_parse_doc_item\<close> or \<^verbatim>\<open>_docitem_to_dict\<close> passes \<^verbatim>\<open>subtrees_key\<close> or
  \<^verbatim>\<open>items_key\<close>: they are the two defaults throughout. \<^verbatim>\<open>file_key\<close> is an argument.
\<close>

subsection \<open>One item entry (lines 102 to 133)\<close>

definition link_keys_of :: "pydict \<Rightarrow> string list" where
  \<comment> \<open>\<^verbatim>\<open>_known_link_keys.intersection(item_data)\<close>, as a list without repetition\<close>
  "link_keys_of d = filter (has_key d) [FILE_KEY, GLOB_KEY, URL_KEY]"

definition incompatible_keys :: "pydict \<Rightarrow> string list \<Rightarrow> (string \<times> string) option" where
  \<comment> \<open>the two nested loops of lines 120 to 126: the first pair that raises\<close>
  "incompatible_keys d link_keys =
     find (\<lambda>(item_key, other_key). link_keys = [item_key] \<and> has_key d other_key)
       [(GLOB_KEY, DEFAULT_SUBTREES_KEY), (GLOB_KEY, DEFAULT_ITEMS_KEY),
        (URL_KEY, DEFAULT_SUBTREES_KEY), (URL_KEY, DEFAULT_ITEMS_KEY)]"

definition parse_item_entry :: "api \<Rightarrow> string \<Rightarrow> pyval \<Rightarrow> error + Item" where
  \<comment> \<open>\<open>loc\<close> is \<^verbatim>\<open>{path}{toc_idx}/{item_idx}\<close>\<close>
  "parse_item_entry A loc item_data = (case item_data of
       PDict d \<Rightarrow>
         (let link_keys = link_keys_of d in
          if link_keys = [] then Inl (MalformedError (NoLinkKey loc))
          else if length link_keys \<noteq> 1 then Inl (MalformedError (ManyLinkKeys link_keys loc))
          else (case incompatible_keys d link_keys of
              Some (item_key, other_key) \<Rightarrow>
                Inl (MalformedError (IncompatibleKeys item_key other_key loc))
            | None \<Rightarrow>
                if link_keys = [FILE_KEY] then Inr (FileItem (py_str A (dict_get d FILE_KEY)))
                else if link_keys = [GLOB_KEY] then Inr (GlobItem (py_str A (dict_get d GLOB_KEY)))
                else (case UrlItem_new (dict_get d URL_KEY) (dict_get d ''title'') of
                    Some it \<Rightarrow> Inr it
                  | None \<Rightarrow> Inl (TypeError ''UrlItem''))))
     | _ \<Rightarrow> Inl (MalformedError (ItemNotMapping loc)))"

fun parse_items :: "api \<Rightarrow> string \<Rightarrow> nat \<Rightarrow> pyval list \<Rightarrow> error + Item list" where
  \<comment> \<open>the loop of line 100 from index \<open>item_idx\<close> on; \<open>loc\<close> is \<^verbatim>\<open>{path}{toc_idx}\<close>\<close>
  "parse_items A loc item_idx [] = Inr []"
| "parse_items A loc item_idx (item_data # rest) =
     (case parse_item_entry A (loc @ ''/'' @ show_nat item_idx) item_data of
        Inl e \<Rightarrow> Inl e
      | Inr it \<Rightarrow> (case parse_items A loc (Suc item_idx) rest of
            Inl e \<Rightarrow> Inl e
          | Inr its \<Rightarrow> Inr (it # its)))"

subsection \<open>The keyword arguments of a grouping (lines 136 to 139)\<close>

definition own_keywords :: "pydict \<Rightarrow> pydict" where
  \<comment> \<open>\<^verbatim>\<open>{k: toc_data[k] for k in TOCTREE_OPTIONS if k in toc_data}\<close>\<close>
  "own_keywords toc_data =
     List.map_filter (\<lambda>k. map_option (Pair k) (map_of toc_data k)) TOCTREE_OPTIONS"

fun defaults_list_loop :: "nat \<Rightarrow> pyval list \<Rightarrow> pydict \<Rightarrow> bool \<Rightarrow> error + (pydict \<times> bool)" where
  \<comment> \<open>\<^verbatim>\<open>for key in defaults\<close> when \<^verbatim>\<open>defaults\<close> is a list of length \<open>n\<close>: a string that
      is a keyword already is skipped, an integer in range stores a keyword that is not a
      string (the flag), anything else raises\<close>
  "defaults_list_loop n [] kw bad = Inr (kw, bad)"
| "defaults_list_loop n (PStr s # es) kw bad =
     (if has_key kw s then defaults_list_loop n es kw bad
      else Inl (TypeError ''list indices must be integers''))"
| "defaults_list_loop n (PInt i # es) kw bad =
     (if - int n \<le> i \<and> i < int n then defaults_list_loop n es kw True else Inl IndexError)"
| "defaults_list_loop n (PBool b # es) kw bad =
     (if (if b then 1 else 0) < n then defaults_list_loop n es kw True else Inl IndexError)"
| "defaults_list_loop n (PNone # es) kw bad = Inl (TypeError ''list indices must be integers'')"
| "defaults_list_loop n (PList xs # es) kw bad = Inl (TypeError ''unhashable type'')"
| "defaults_list_loop n (PDict d # es) kw bad = Inl (TypeError ''unhashable type'')"

definition add_default :: "string \<times> pyval \<Rightarrow> pydict \<Rightarrow> pydict" where
  \<comment> \<open>\<^verbatim>\<open>if key not in keywords: keywords[key] = defaults[key]\<close>\<close>
  "add_default kv keywords = (if has_key keywords (fst kv) then keywords else keywords @ [kv])"

definition merge_defaults :: "pyval \<Rightarrow> pydict \<Rightarrow> error + (pydict \<times> bool)" where
  \<comment> \<open>lines 137 to 139. \<^verbatim>\<open>defaults\<close> is whatever the input has under that key; the
      flag says that a key which is not a string was stored\<close>
  "merge_defaults defaults keywords = (case defaults of
       PDict dd \<Rightarrow> Inr (fold add_default dd keywords, False)
     | PList es \<Rightarrow> defaults_list_loop (length es) es keywords False
     | PStr s \<Rightarrow>
         (if list_all (\<lambda>c. has_key keywords [c]) s then Inr (keywords, False)
          else Inl (TypeError ''string indices must be integers''))
     | _ \<Rightarrow> Inl (TypeError ''object is not iterable''))"

subsection \<open>One grouping (lines 86 to 145)\<close>

definition parse_toctree :: "api \<Rightarrow> pyval \<Rightarrow> string \<Rightarrow> pyval \<Rightarrow> error + TocTree" where
  \<comment> \<open>\<open>loc\<close> is \<^verbatim>\<open>{path}{toc_idx}\<close>\<close>
  "parse_toctree A defaults loc toc_data = (case toc_data of
       PDict d \<Rightarrow> (case map_of d DEFAULT_ITEMS_KEY of
           None \<Rightarrow> Inl (MalformedError (PartNotMapping loc))
         | Some items_data \<Rightarrow> (case seq_elems items_data of
               None \<Rightarrow> Inl (MalformedError (ItemsNotList loc))
             | Some [] \<Rightarrow> Inl (MalformedError (ItemsNotList loc))
             | Some (x # xs) \<Rightarrow> (case parse_items A loc 0 (x # xs) of
                   Inl e \<Rightarrow> Inl e
                 | Inr its \<Rightarrow> (case merge_defaults defaults (own_keywords d) of
                       Inl e \<Rightarrow> Inl e
                     | Inr (keywords, bad) \<Rightarrow>
                         (case (if bad then None else TocTree_new A its keywords) of
                            None \<Rightarrow> Inl (MalformedError (ToctreeValidation loc))
                          | Some toc_item \<Rightarrow> Inr toc_item)))))
     | _ \<Rightarrow> Inl (MalformedError (PartNotMapping loc)))"

fun parse_toctrees :: "api \<Rightarrow> pyval \<Rightarrow> string \<Rightarrow> nat \<Rightarrow> pyval list \<Rightarrow> error + TocTree list" where
  \<comment> \<open>the loop of line 84 from index \<open>toc_idx\<close> on\<close>
  "parse_toctrees A defaults path toc_idx [] = Inr []"
| "parse_toctrees A defaults path toc_idx (toc_data # rest) =
     (case parse_toctree A defaults (path @ show_nat toc_idx) toc_data of
        Inl e \<Rightarrow> Inl e
      | Inr t \<Rightarrow> (case parse_toctrees A defaults path (Suc toc_idx) rest of
            Inl e \<Rightarrow> Inl e
          | Inr ts \<Rightarrow> Inr (t # ts)))"

subsection \<open>One document (\<^verbatim>\<open>_parse_doc_item\<close>)\<close>

definition subtrees_data_of :: "pydict \<Rightarrow> string \<Rightarrow> error + pyval list" where
  \<comment> \<open>lines 67 to 79\<close>
  "subtrees_data_of data path =
     (if has_key data DEFAULT_ITEMS_KEY then
        (if has_key data DEFAULT_SUBTREES_KEY then Inl (MalformedError (BothKeysFound path))
         else (case map_of data ''options'' of
             None \<Rightarrow> Inr [PDict [(DEFAULT_ITEMS_KEY, dict_get data DEFAULT_ITEMS_KEY)]]
           | Some (PDict opts) \<Rightarrow>
               Inr [PDict (dict_merge [(DEFAULT_ITEMS_KEY, dict_get data DEFAULT_ITEMS_KEY)] opts)]
           | Some _ \<Rightarrow> Inl (TypeError ''object is not a mapping'')))
      else if has_key data DEFAULT_SUBTREES_KEY then
        (case seq_elems (dict_get data DEFAULT_SUBTREES_KEY) of
           None \<Rightarrow> Inl (MalformedError (SubtreesNotList path))
         | Some [] \<Rightarrow> Inl (MalformedError (SubtreesNotList path))
         | Some (x # xs) \<Rightarrow> Inr (x # xs))
      else Inr [])"

fun entry_of :: "pyval \<Rightarrow> pydict list" where
  \<comment> \<open>\<^verbatim>\<open>item_data\<close> if \<^verbatim>\<open>FILE_KEY in item_data\<close>; the loop of line 100 has checked that
      every entry is a mapping\<close>
  "entry_of (PDict e) = (if has_key e FILE_KEY then [e] else [])"
| "entry_of _ = []"

definition file_entries :: "pyval \<Rightarrow> pydict list" where
  \<comment> \<open>the entries of one grouping that have the key \<^verbatim>\<open>file\<close>; the loop of line 84 has
      checked that the grouping is a mapping with a sequence under the items key\<close>
  "file_entries toc_data = (case toc_data of
       PDict d \<Rightarrow> (case seq_elems (dict_get d DEFAULT_ITEMS_KEY) of
           Some xs \<Rightarrow> concat (map entry_of xs)
         | None \<Rightarrow> [])
     | _ \<Rightarrow> [])"

definition docs_data_of :: "pyval list \<Rightarrow> pydict list" where
  \<comment> \<open>lines 154 to 159\<close>
  "docs_data_of subtrees_data = concat (map file_entries subtrees_data)"

definition parse_doc_item ::
  "api \<Rightarrow> pydict \<Rightarrow> pyval \<Rightarrow> string \<Rightarrow> string \<Rightarrow> error + (Document \<times> pydict list)" where
  "parse_doc_item A data defaults path file_key =
     (if \<not> has_key data file_key then Inl (MalformedError (KeyNotFound file_key path))
      else (case subtrees_data_of data path of
          Inl e \<Rightarrow> Inl e
        | Inr subtrees_data \<Rightarrow> (case parse_toctrees A defaults path 0 subtrees_data of
              Inl e \<Rightarrow> Inl e
            | Inr toctrees \<Rightarrow>
                (case Document_new (dict_get data file_key) (dict_get data ''title'') toctrees of
                   None \<Rightarrow> Inl (MalformedError (DocValidation path))
                 | Some doc_item \<Rightarrow> Inr (doc_item, docs_data_of subtrees_data)))))"


subsection \<open>The child documents (\<^verbatim>\<open>_parse_docs_list\<close>)\<close>

text \<open>
  The entries that \<^verbatim>\<open>_parse_doc_item\<close> returns are parts of the mapping it was given,
  so the recursion of \<^verbatim>\<open>_parse_docs_list\<close> goes down the input.
\<close>

definition docs_size :: "pydict list \<Rightarrow> nat" where
  "docs_size ds = sum_list (map (\<lambda>d. vsize (PDict d)) ds)"

lemma vsize_map_of: "map_of d k = Some v \<Longrightarrow> vsize v < vsize (PDict d)"
  by (induction d) (auto split: if_splits)

lemma vsize_seq_elems: "seq_elems v = Some xs \<Longrightarrow> sum_list (map vsize xs) \<le> vsize v"
  by (cases v) (auto simp: seq_elems_def comp_def)

lemma docs_size_append [simp]: "docs_size (xs @ ys) = docs_size xs + docs_size ys"
  by (simp add: docs_size_def)

lemma file_entries_items_le:
  "docs_size (concat (map entry_of xs)) \<le> sum_list (map vsize xs)"
proof (induction xs)
  case Nil show ?case by (simp add: docs_size_def)
next
  case (Cons x xs)
  then show ?case by (cases x) (auto simp: docs_size_def)
qed

lemma file_entries_dict_le:
  "docs_size (file_entries (PDict d)) \<le> vsize (dict_get d DEFAULT_ITEMS_KEY)"
proof (cases "seq_elems (dict_get d DEFAULT_ITEMS_KEY)")
  case None then show ?thesis by (simp add: file_entries_def docs_size_def)
next
  case (Some xs)
  from vsize_seq_elems[OF Some] file_entries_items_le[of xs] Some
  show ?thesis by (simp add: file_entries_def)
qed

lemma file_entries_le: "docs_size (file_entries t) \<le> vsize t"
proof (cases t)
  case (PDict d)
  show ?thesis
  proof (cases "map_of d DEFAULT_ITEMS_KEY")
    case None
    then show ?thesis using file_entries_dict_le[of d] PDict by (simp add: dict_get_def)
  next
    case (Some v)
    from vsize_map_of[OF Some] file_entries_dict_le[of d] Some PDict
    show ?thesis by (simp add: dict_get_def)
  qed
qed (simp_all add: file_entries_def docs_size_def)

lemma docs_data_of_le: "docs_size (docs_data_of sd) \<le> sum_list (map vsize sd)"
proof (induction sd)
  case Nil show ?case by (simp add: docs_data_of_def docs_size_def)
next
  case (Cons t ts)
  then show ?case using file_entries_le[of t] by (simp add: docs_data_of_def)
qed

lemma map_of_dict_merge:
  "map_of (dict_merge d e) k = (case map_of (rev e) k of Some v \<Rightarrow> Some v | None \<Rightarrow> map_of d k)"
  unfolding dict_merge_def
proof (induction e arbitrary: d)
  case Nil show ?case by simp
next
  case (Cons p e)
  obtain a b where p: "p = (a, b)" by (cases p)
  show ?case using Cons[of "AList.update a b d"]
    by (auto simp: p update_conv' map_add_def split: option.splits)
qed

lemma vsize_map_of_rev: "map_of (rev d) k = Some v \<Longrightarrow> vsize v < vsize (PDict d)"
proof -
  assume "map_of (rev d) k = Some v"
  then have "(k, v) \<in> set d" by (auto dest: map_of_SomeD)
  then show ?thesis by (induction d) auto
qed

lemma subtrees_data_docs_lt:
  assumes "subtrees_data_of data path = Inr sd"
  shows "docs_size (docs_data_of sd) < vsize (PDict data)"
proof (cases "has_key data DEFAULT_ITEMS_KEY")
  case True
  then obtain iv where iv: "map_of data DEFAULT_ITEMS_KEY = Some iv"
    by (auto simp: has_key_def)
  have ivlt: "vsize iv < vsize (PDict data)" by (rule vsize_map_of[OF iv])
  from assms True consider
      (none) "map_of data ''options'' = None" "sd = [PDict [(DEFAULT_ITEMS_KEY, iv)]]"
    | (some) opts where "map_of data ''options'' = Some (PDict opts)"
        "sd = [PDict (dict_merge [(DEFAULT_ITEMS_KEY, iv)] opts)]"
    using iv by (auto simp: subtrees_data_of_def dict_get_def split: if_splits option.splits pyval.splits)
  then show ?thesis
  proof cases
    case none
    then show ?thesis using file_entries_dict_le[of "[(DEFAULT_ITEMS_KEY, iv)]"] ivlt
      by (simp add: docs_data_of_def dict_get_def)
  next
    case some
    let ?m = "dict_merge [(DEFAULT_ITEMS_KEY, iv)] opts"
    have optlt: "vsize (PDict opts) < vsize (PDict data)" by (rule vsize_map_of[OF some(1)])
    have "vsize (dict_get ?m DEFAULT_ITEMS_KEY) < vsize (PDict data)"
    proof (cases "map_of (rev opts) DEFAULT_ITEMS_KEY")
      case None
      then show ?thesis using ivlt by (simp add: dict_get_def map_of_dict_merge)
    next
      case (Some w)
      from vsize_map_of_rev[OF Some] optlt Some show ?thesis
        by (simp add: dict_get_def map_of_dict_merge)
    qed
    then show ?thesis using file_entries_dict_le[of ?m] some(2)
      by (simp add: docs_data_of_def)
  qed
next
  case False
  show ?thesis
  proof (cases "has_key data DEFAULT_SUBTREES_KEY")
    case True
    then obtain sv where sv: "map_of data DEFAULT_SUBTREES_KEY = Some sv"
      by (auto simp: has_key_def)
    from assms False True sv have "seq_elems sv = Some sd"
      by (auto simp: subtrees_data_of_def dict_get_def split: option.splits list.splits)
    from vsize_seq_elems[OF this] vsize_map_of[OF sv] docs_data_of_le[of sd]
    show ?thesis by simp
  next
    case F2: False
    with assms False have "sd = []" by (simp add: subtrees_data_of_def)
    then show ?thesis by (simp add: docs_data_of_def docs_size_def)
  qed
qed

lemma parse_doc_item_docs_lt:
  "parse_doc_item A data defaults path file_key = Inr (doc, ds) \<Longrightarrow>
     docs_size ds < vsize (PDict data)"
  by (auto simp: parse_doc_item_def split: if_splits sum.splits option.splits
      dest: subtrees_data_docs_lt)

definition sm_contains :: "SiteMap \<Rightarrow> pyval \<Rightarrow> error + bool" where
  \<comment> \<open>Modelled from the spec: \<^verbatim>\<open>docname in site_map\<close> of \<^verbatim>\<open>api\<close> for the raw value
      under \<^verbatim>\<open>file\<close>: a list or a mapping cannot be hashed, any other value that is not a
      string is not a key\<close>
  "sm_contains sm v = (case v of
       PStr s \<Rightarrow> Inr (sm_lookup sm s \<noteq> None)
     | PList xs \<Rightarrow> Inl (TypeError ''unhashable type'')
     | PDict d \<Rightarrow> Inl (TypeError ''unhashable type'')
     | _ \<Rightarrow> Inr False)"

function parse_docs_list ::
  "api \<Rightarrow> pydict list \<Rightarrow> SiteMap \<Rightarrow> pyval \<Rightarrow> string \<Rightarrow> error + SiteMap" where
  "parse_docs_list A [] site_map defaults path = Inr site_map"
| "parse_docs_list A (doc_data # rest) site_map defaults path =
     (case map_of doc_data FILE_KEY of
        None \<Rightarrow> Inl (KeyError FILE_KEY)
      | Some name \<Rightarrow> (case sm_contains site_map name of
            Inl e \<Rightarrow> Inl e
          | Inr True \<Rightarrow> Inl (MalformedError (UsedMultipleTimes (py_str A name)))
          | Inr False \<Rightarrow>
              (let child_path = path @ py_str A name @ ''/'' in
               case parse_doc_item A doc_data defaults child_path FILE_KEY of
                 Inl e \<Rightarrow> Inl e
               | Inr (child_item, child_docs_list) \<Rightarrow>
                   (case parse_docs_list A child_docs_list
                           (sm_setitem site_map (docname child_item) child_item)
                           defaults child_path of
                      Inl e \<Rightarrow> Inl e
                    | Inr site_map' \<Rightarrow> parse_docs_list A rest site_map' defaults path))))"
  by pat_completeness auto
termination
proof (relation "measure (\<lambda>(A, ds, site_map, defaults, path). docs_size ds)")
  show "wf (measure (\<lambda>(A, ds, site_map, defaults, path). docs_size ds))" by simp
next
  fix A :: api and doc_data :: pydict and rest :: "pydict list" and site_map :: SiteMap
    and defaults :: pyval and path :: string and name x2 child_path x2a x y
  assume "parse_doc_item A doc_data defaults child_path FILE_KEY = Inr x2a" "(x, y) = x2a"
  then have "docs_size y < vsize (PDict doc_data)"
    using parse_doc_item_docs_lt[of A doc_data defaults child_path FILE_KEY x y] by simp
  then show "((A, y, sm_setitem site_map (docname x) x, defaults, child_path),
              A, doc_data # rest, site_map, defaults, path)
             \<in> measure (\<lambda>(A, ds, site_map, defaults, path). docs_size ds)"
    by (simp add: docs_size_def)
next
  fix A :: api and doc_data :: pydict and rest :: "pydict list" and site_map :: SiteMap
    and defaults :: pyval and path :: string and x2b :: SiteMap
  show "((A, rest, x2b, defaults, path), A, doc_data # rest, site_map, defaults, path)
          \<in> measure (\<lambda>(A, ds, site_map, defaults, path). docs_size ds)"
    by (simp add: docs_size_def)
qed

declare parse_docs_list.simps [simp del]

definition parse_toc_data :: "api \<Rightarrow> pyval \<Rightarrow> error + SiteMap" where
  "parse_toc_data A data = (case data of
       PDict d \<Rightarrow>
         (let defaults = (case map_of d ''defaults'' of Some v \<Rightarrow> v | None \<Rightarrow> PDict []) in
          case parse_doc_item A d defaults ''/'' ''root'' of
            Inl e \<Rightarrow> Inl e
          | Inr (doc_item, docs_list) \<Rightarrow>
              parse_docs_list A docs_list (SiteMap_new doc_item (dict_get d ''meta'')) defaults ''/'')
     | _ \<Rightarrow> Inl (MalformedError TocNotMapping))"


section \<open>The serializer\<close>

text \<open>Sizes for the termination of \<open>py_eq\<close>.\<close>

lemma vsize_mem_list: "x \<in> set xs \<Longrightarrow> vsize x < vsize (PList xs)"
  by (induction xs) auto

text \<open>
  Python's \<^verbatim>\<open>==\<close> on these values: a boolean equals the integer 0 or 1, lists are
  compared element by element, dictionaries key by key whatever the order.
\<close>

function py_eq :: "pyval \<Rightarrow> pyval \<Rightarrow> bool" where
  "py_eq PNone w = (w = PNone)"
| "py_eq (PBool a) w = (case w of PBool b \<Rightarrow> a = b | PInt j \<Rightarrow> (if a then 1 else 0) = j | _ \<Rightarrow> False)"
| "py_eq (PInt i) w = (case w of PBool b \<Rightarrow> i = (if b then 1 else 0) | PInt j \<Rightarrow> i = j | _ \<Rightarrow> False)"
| "py_eq (PStr s) w = (w = PStr s)"
| "py_eq (PList xs) w = (case w of PList ys \<Rightarrow> list_all2 py_eq xs ys | _ \<Rightarrow> False)"
| "py_eq (PDict d) w = (case w of
       PDict e \<Rightarrow> set (map fst d) = set (map fst e) \<and>
         list_all (\<lambda>k. case map_of d k of
             Some v \<Rightarrow> (case map_of e k of Some v' \<Rightarrow> py_eq v v' | None \<Rightarrow> False)
           | None \<Rightarrow> False) (map fst d)
     | _ \<Rightarrow> False)"
  by pat_completeness auto
termination
  apply (relation "measure (\<lambda>(v, w). vsize v)")
    apply simp
   apply (auto dest: vsize_mem_list vsize_map_of simp del: vsize.simps)
  done

lemma py_eq_refl: "py_eq v v"
proof (induction v rule: vsize.induct)
  case (1 xs)
  then show ?case by (simp add: list_all2_same list.rel_refl_strong)
next
  case (2 d)
  have "list_all (\<lambda>k. case map_of d k of
             Some v \<Rightarrow> (case map_of d k of Some v' \<Rightarrow> py_eq v v' | None \<Rightarrow> False)
           | None \<Rightarrow> False) (map fst d)"
    unfolding list_all_iff
  proof
    fix k assume "k \<in> set (map fst d)"
    then obtain v where v: "map_of d k = Some v"
      by (metis map_of_eq_None_iff not_Some_eq set_map)
    then have "(k, v) \<in> set d" by (rule map_of_SomeD)
    with 2[of "(k, v)"] have "py_eq v v" by simp
    with v show "case map_of d k of
             Some v \<Rightarrow> (case map_of d k of Some v' \<Rightarrow> py_eq v v' | None \<Rightarrow> False)
           | None \<Rightarrow> False" by simp
  qed
  then show ?case by simp
qed simp_all

definition toctree_options :: "api \<Rightarrow> bool \<Rightarrow> TocTree \<Rightarrow> pydict" where
  \<comment> \<open>lines 243 to 247: the option fields written for a grouping; \<^verbatim>\<open>fields[key].default\<close>
      is the parameter \<open>field_default\<close>\<close>
  "toctree_options A skip_defaults toctree =
     map (\<lambda>key. (key, getattr toctree key))
       (filter (\<lambda>key. \<not> skip_defaults \<or> \<not> py_eq (getattr toctree key) (field_default A key))
          TOCTREE_OPTIONS)"

definition apply_shorthand :: "pydict \<Rightarrow> pydict" where
  \<comment> \<open>lines 252 to 259\<close>
  "apply_shorthand data = (case map_of data DEFAULT_SUBTREES_KEY of
       Some (PList [PDict old_toctree_data]) \<Rightarrow>
         (if has_key old_toctree_data DEFAULT_ITEMS_KEY then
            (let data1 = AList.delete DEFAULT_SUBTREES_KEY data;
                 data2 = AList.update DEFAULT_ITEMS_KEY
                           (dict_get old_toctree_data DEFAULT_ITEMS_KEY) data1
             in if length old_toctree_data > 1
                then AList.update ''options''
                       (PDict (filter (\<lambda>(k, v). k \<noteq> DEFAULT_ITEMS_KEY) old_toctree_data)) data2
                else data2)
          else data)
     | _ \<Rightarrow> data)"

definition doc_header :: "string \<Rightarrow> Document \<Rightarrow> pydict" where
  \<comment> \<open>lines 212 to 216\<close>
  "doc_header file_key doc_item =
     (let data = AList.update file_key (PStr (docname doc_item)) []
      in case title doc_item of
           Some t \<Rightarrow> AList.update ''title'' (PStr t) data
         | None \<Rightarrow> data)"

definition known_docnames :: "SiteMap \<Rightarrow> string set" where
  \<comment> \<open>the docnames of the stored documents: the recursion of the serializer ends because
      every inlined document adds one of them to the visited set\<close>
  "known_docnames sm = docname ` snd ` set (docs sm)"

lemma finite_known_docnames [simp]: "finite (known_docnames sm)"
  by (simp add: known_docnames_def)

lemma card_diff_mono: "finite D \<Longrightarrow> P \<subseteq> P' \<Longrightarrow> card (D - P') \<le> card (D - P)"
  by (rule card_mono) auto

lemma sm_lookup_known: "sm_lookup sm name = Some doc \<Longrightarrow> docname doc \<in> known_docnames sm"
  by (force simp: sm_lookup_def known_docnames_def dest: map_of_SomeD)

lemma card_diff_insert_less:
  "finite D \<Longrightarrow> x \<in> D \<Longrightarrow> x \<notin> P \<Longrightarrow> card (D - insert x P) < card (D - P)"
  by (rule psubset_card_mono) auto

text \<open>
  \<^verbatim>\<open>_docitem_to_dict\<close> with its inner function \<^verbatim>\<open>_parse_item\<close> (here \<open>serialize_item\<close>),
  the list comprehension of line 248 (\<open>items_to_list\<close>) and the loop of line 241
  (\<open>subtrees_to_list\<close>). The set \<^verbatim>\<open>parsed_docnames\<close> is one mutable object shared by all
  recursive calls (\<^verbatim>\<open>parsed_docnames or set()\<close> replaces only an empty set, and the set
  handed to a recursive call holds the caller's docname); the model takes the set and
  returns it with the result. The only caller without a set is \<^verbatim>\<open>create_toc_dict\<close>.
\<close>

function docitem_to_dict ::
    "api \<Rightarrow> SiteMap \<Rightarrow> bool \<Rightarrow> string \<Rightarrow> string set \<Rightarrow> Document \<Rightarrow> error + (pydict \<times> string set)"
  and serialize_item ::
    "api \<Rightarrow> SiteMap \<Rightarrow> bool \<Rightarrow> string set \<Rightarrow> Item \<Rightarrow> error + (pyval \<times> string set)"
  and items_to_list ::
    "api \<Rightarrow> SiteMap \<Rightarrow> bool \<Rightarrow> string set \<Rightarrow> Item list \<Rightarrow> error + (pyval list \<times> string set)"
  and subtrees_to_list ::
    "api \<Rightarrow> SiteMap \<Rightarrow> bool \<Rightarrow> string set \<Rightarrow> TocTree list \<Rightarrow> error + (pyval list \<times> string set)"
where
  "docitem_to_dict A site_map skip_defaults file_key parsed_docnames doc_item =
     (if docname doc_item \<in> parsed_docnames then Inl (RecursionError (docname doc_item))
      else if subtrees doc_item = [] then
        Inr (doc_header file_key doc_item, insert (docname doc_item) parsed_docnames)
      else (case subtrees_to_list A site_map skip_defaults
                   (insert (docname doc_item) parsed_docnames) (subtrees doc_item) of
          Inl e \<Rightarrow> Inl e
        | Inr (sub, parsed') \<Rightarrow>
            Inr (apply_shorthand
                   (AList.update DEFAULT_SUBTREES_KEY (PList sub) (doc_header file_key doc_item)),
                 parsed')))"
| "serialize_item A site_map skip_defaults parsed_docnames (FileItem name) =
     (case sm_lookup site_map name of
        Some doc \<Rightarrow>
          (case docitem_to_dict A site_map skip_defaults FILE_KEY parsed_docnames doc of
             Inl e \<Rightarrow> Inl e
           | Inr (d, parsed') \<Rightarrow> Inr (PDict d, parsed'))
      | None \<Rightarrow> Inr (PDict [(FILE_KEY, PStr name)], parsed_docnames))"
| "serialize_item A site_map skip_defaults parsed_docnames (GlobItem pat) =
     Inr (PDict [(GLOB_KEY, PStr pat)], parsed_docnames)"
| "serialize_item A site_map skip_defaults parsed_docnames (UrlItem url ttl) =
     (case ttl of
        Some t \<Rightarrow> Inr (PDict [(URL_KEY, PStr url), (''title'', PStr t)], parsed_docnames)
      | None \<Rightarrow> Inr (PDict [(URL_KEY, PStr url)], parsed_docnames))"
| "items_to_list A site_map skip_defaults parsed_docnames [] = Inr ([], parsed_docnames)"
| "items_to_list A site_map skip_defaults parsed_docnames (item # rest) =
     (case serialize_item A site_map skip_defaults parsed_docnames item of
        Inl e \<Rightarrow> Inl e
      | Inr (x, parsed') \<Rightarrow> (case items_to_list A site_map skip_defaults parsed' rest of
            Inl e \<Rightarrow> Inl e
          | Inr (xs, parsed'') \<Rightarrow> Inr (x # xs, parsed'')))"
| "subtrees_to_list A site_map skip_defaults parsed_docnames [] = Inr ([], parsed_docnames)"
| "subtrees_to_list A site_map skip_defaults parsed_docnames (toctree # rest) =
     (case items_to_list A site_map skip_defaults parsed_docnames (items toctree) of
        Inl e \<Rightarrow> Inl e
      | Inr (xs, parsed') \<Rightarrow>
          (case subtrees_to_list A site_map skip_defaults parsed' rest of
             Inl e \<Rightarrow> Inl e
           | Inr (ts, parsed'') \<Rightarrow>
               Inr (PDict (AList.update DEFAULT_ITEMS_KEY (PList xs)
                             (toctree_options A skip_defaults toctree)) # ts, parsed'')))"
  by pat_completeness auto


termination
proof -
  have parsed_mono_dom:
  "docitem_to_dict_serialize_item_items_to_list_subtrees_to_list_dom (Inl (Inl (A, sm, skip, fk, P, doc))) \<Longrightarrow>
     docitem_to_dict A sm skip fk P doc = Inr (d, P') \<Longrightarrow> P \<subseteq> P'"
  "docitem_to_dict_serialize_item_items_to_list_subtrees_to_list_dom (Inl (Inr (A, sm, skip, P, it))) \<Longrightarrow>
     serialize_item A sm skip P it = Inr (x, P') \<Longrightarrow> P \<subseteq> P'"
  "docitem_to_dict_serialize_item_items_to_list_subtrees_to_list_dom (Inr (Inl (A, sm, skip, P, its))) \<Longrightarrow>
     items_to_list A sm skip P its = Inr (xs, P') \<Longrightarrow> P \<subseteq> P'"
  "docitem_to_dict_serialize_item_items_to_list_subtrees_to_list_dom (Inr (Inr (A, sm, skip, P, ts))) \<Longrightarrow>
     subtrees_to_list A sm skip P ts = Inr (ys, P') \<Longrightarrow> P \<subseteq> P'"
    for A sm skip fk P doc d P' it x its xs ts ys
  proof (induction A sm skip fk P doc and A sm skip P it and A sm skip P its and A sm skip P ts
    arbitrary: d P' and x P' and xs P' and ys P'
    rule: docitem_to_dict_serialize_item_items_to_list_subtrees_to_list.pinduct)
  case (1 A sm skip fk P doc)
  from 1(3) show ?case
    by (auto simp: docitem_to_dict.psimps[OF 1(1)] split: if_splits sum.splits dest!: 1(2))
next
  case (2 A sm skip P name)
  from 2(3) show ?case
    by (auto simp: serialize_item.psimps(1)[OF 2(1)] split: option.splits sum.splits dest!: 2(2))
next
  case (3 A sm skip P pat)
  from 3(2) show ?case by (simp add: serialize_item.psimps(2)[OF 3(1)])
next
  case (4 A sm skip P url ttl)
  from 4(2) show ?case by (auto simp: serialize_item.psimps(3)[OF 4(1)] split: option.splits)
next
  case (5 A sm skip P)
  from 5(2) show ?case by (simp add: items_to_list.psimps(1)[OF 5(1)])
next
  case (6 A sm skip P item rest)
  from 6(4) obtain x Q xs' where a: "serialize_item A sm skip P item = Inr (x, Q)"
    and b: "items_to_list A sm skip Q rest = Inr (xs', P')"
    by (auto simp: items_to_list.psimps(2)[OF 6(1)] split: sum.splits)
  from 6(2)[OF a] 6(3)[OF a refl b] show ?case by blast
next
  case (7 A sm skip P)
  from 7(2) show ?case by (simp add: subtrees_to_list.psimps(1)[OF 7(1)])
next
  case (8 A sm skip P toctree rest)
  from 8(4) obtain xs Q ts' where a: "items_to_list A sm skip P (items toctree) = Inr (xs, Q)"
    and b: "subtrees_to_list A sm skip Q rest = Inr (ts', P')"
    by (auto simp: subtrees_to_list.psimps(2)[OF 8(1)] split: sum.splits)
  from 8(2)[OF a] 8(3)[OF a refl b] show ?case by blast
qed
  show ?thesis
  proof (relation "inv_image (less_than <*lex*> less_than) (\<lambda>x. case x of
        Inl (Inl (A, sm, skip, fk, P, doc)) \<Rightarrow>
          (card (known_docnames sm - insert (docname doc) P),
           if docname doc \<in> P then 0
           else 4 + length (subtrees doc) + sum_list (map (\<lambda>t. length (items t)) (subtrees doc)))
      | Inl (Inr (A, sm, skip, P, it)) \<Rightarrow> (card (known_docnames sm - P), 1)
      | Inr (Inl (A, sm, skip, P, its)) \<Rightarrow> (card (known_docnames sm - P), 2 + length its)
      | Inr (Inr (A, sm, skip, P, ts)) \<Rightarrow>
          (card (known_docnames sm - P),
           3 + length ts + sum_list (map (\<lambda>t. length (items t)) ts)))", goal_cases)
  case 1
  show ?case by (intro wf_inv_image wf_lex_prod wf_less_than)
next
  case (2 A sm skip fk P doc)
  then show ?case by simp
next
  case (3 A sm skip P name doc)
  then show ?case
    using sm_lookup_known[OF 3] card_diff_insert_less[of "known_docnames sm" "docname doc" P]
    by (cases "docname doc \<in> P") (auto simp: insert_absorb)
next
  case (4 A sm skip P item rest)
  then show ?case by simp
next
  case (5 A sm skip P item rest x2 x y)
  then have "P \<subseteq> y" using parsed_mono_dom(2)[of A sm skip P item x y] by simp
  then show ?case using card_diff_mono[of "known_docnames sm" P y] by auto
next
  case (6 A sm skip P toctree rest)
  then show ?case by simp
next
  case (7 A sm skip P toctree rest x2 x y)
  then have "P \<subseteq> y" using parsed_mono_dom(3)[of A sm skip P "items toctree" x y] by simp
  then show ?case using card_diff_mono[of "known_docnames sm" P y] by auto
qed
qed

declare docitem_to_dict.simps [simp del]

definition create_toc_dict :: "api \<Rightarrow> SiteMap \<Rightarrow> bool \<Rightarrow> error + pydict" where
  \<comment> \<open>\<^verbatim>\<open>meta.copy()\<close> exists for a mapping and for a list\<close>
  "create_toc_dict A site_map skip_defaults =
     (case docitem_to_dict A site_map skip_defaults ''root'' {} (root site_map) of
        Inl e \<Rightarrow> Inl e
      | Inr (data, parsed) \<Rightarrow>
          (if truthy (meta site_map) then
             (case meta site_map of
                PDict m \<Rightarrow> Inr (AList.update ''meta'' (PDict m) data)
              | PList xs \<Rightarrow> Inr (AList.update ''meta'' (PList xs) data)
              | _ \<Rightarrow> Inl (AttributeError ''copy''))
           else Inr data))"


section \<open>Instances for running the model\<close>

text \<open>
  An instance of the parameters: a default for each of the six options, validators by
  the types the specification declares, and a fixed text for \<^verbatim>\<open>str()\<close> of a value that
  is not a string.
\<close>

definition api0 :: api where
  "api0 = \<lparr> field_default = (\<lambda>k. if k = ''hidden'' then PBool True
                                 else if k = ''maxdepth'' then PInt (- 1)
                                 else if k = ''caption'' then PNone else PBool False),
            field_valid = (\<lambda>k v. case v of
                PNone \<Rightarrow> k = ''caption''
              | PStr s \<Rightarrow> k = ''caption''
              | PBool b \<Rightarrow> k \<noteq> ''caption''
              | PInt i \<Rightarrow> k = ''maxdepth'' \<or> k = ''numbered''
              | _ \<Rightarrow> False),
            str_other = (\<lambda>v. ''?'') \<rparr>"

text \<open>The input \<^verbatim>\<open>{root: "index", sections: [{file: "a"}]}\<close> and the site map it parses to.\<close>

definition c2_input :: pyval where
  "c2_input = PDict [(''root'', PStr ''index''),
                     (''sections'', PList [PDict [(''file'', PStr ''a'')]])]"

definition default_toctree :: "api \<Rightarrow> Item list \<Rightarrow> TocTree" where
  "default_toctree A its =
     \<lparr> items = its, caption = field_default A ''caption'', hidden = field_default A ''hidden'',
       maxdepth = field_default A ''maxdepth'', numbered = field_default A ''numbered'',
       reversed = field_default A ''reversed'', titlesonly = field_default A ''titlesonly'' \<rparr>"

definition c2_site_map :: "api \<Rightarrow> SiteMap" where
  "c2_site_map A =
     \<lparr> root = \<lparr> docname = ''index'', title = None,
                  subtrees = [default_toctree A [FileItem ''a'']] \<rparr>,
       meta = PNone,
       docs = [(''index'', \<lparr> docname = ''index'', title = None,
                             subtrees = [default_toctree A [FileItem ''a'']] \<rparr>),
               (''a'', \<lparr> docname = ''a'', title = None, subtrees = [] \<rparr>)] \<rparr>"




text \<open>
  The specification's three tiers for an option: the grouping's own value, else the value
  in the defaults mapping, else the built-in default; and the part of a grouping that it
  says is looked at.
\<close>

definition option_chain :: "api \<Rightarrow> pydict \<Rightarrow> pydict \<Rightarrow> string \<Rightarrow> pyval" where
  "option_chain A toc_data dd k = (case map_of toc_data k of
       Some v \<Rightarrow> v
     | None \<Rightarrow> (case map_of dd k of Some v \<Rightarrow> v | None \<Rightarrow> field_default A k))"

definition recognized_part :: "pydict \<Rightarrow> pydict" where
  "recognized_part toc_data =
     filter (\<lambda>(k, v). k \<in> set TOCTREE_OPTIONS \<or> k = DEFAULT_ITEMS_KEY) toc_data"

definition c9_input :: pydict where
  \<comment> \<open>an unrecognized key in \<^verbatim>\<open>defaults\<close> and an \<^verbatim>\<open>options\<close> value that is no mapping\<close>
  "c9_input = [(''root'', PStr ''index''), (''defaults'', PDict [(''foo'', PInt 1)]),
               (''options'', PInt 5),
               (''sections'', PList [PDict [(''file'', PStr ''a'')]])]"


definition c10_diamond :: SiteMap where
  \<comment> \<open>an acyclic site map in which two different documents list the document \<open>c\<close>\<close>
  "c10_diamond =
     \<lparr> root = \<lparr> docname = ''index'', title = None,
                  subtrees = [default_toctree api0 [FileItem ''a'', FileItem ''b'']] \<rparr>,
       meta = PNone,
       docs = [(''index'', \<lparr> docname = ''index'', title = None,
                             subtrees = [default_toctree api0 [FileItem ''a'', FileItem ''b'']] \<rparr>),
               (''a'', \<lparr> docname = ''a'', title = None,
                         subtrees = [default_toctree api0 [FileItem ''c'']] \<rparr>),
               (''b'', \<lparr> docname = ''b'', title = None,
                         subtrees = [default_toctree api0 [FileItem ''c'']] \<rparr>),
               (''c'', \<lparr> docname = ''c'', title = None, subtrees = [] \<rparr>)] \<rparr>"


section \<open>Notions for the round trip\<close>

text \<open>
  The specification compares site maps by docname, title, items and options. Options are
  compared with Python's \<^verbatim>\<open>==\<close> (as the generated \<^verbatim>\<open>__eq__\<close> of the classes does), the
  documents of the mapping in the order in which they were stored.
\<close>

definition toc_eq :: "TocTree \<Rightarrow> TocTree \<Rightarrow> bool" where
  "toc_eq t t' = (items t = items t' \<and>
     list_all (\<lambda>k. py_eq (getattr t k) (getattr t' k)) TOCTREE_OPTIONS)"

definition doc_eq :: "Document \<Rightarrow> Document \<Rightarrow> bool" where
  "doc_eq d d' = (docname d = docname d' \<and> title d = title d' \<and>
     list_all2 toc_eq (subtrees d) (subtrees d'))"

definition site_map_eq :: "SiteMap \<Rightarrow> SiteMap \<Rightarrow> bool" where
  "site_map_eq sm sm' = (doc_eq (root sm) (root sm') \<and>
     list_all2 (\<lambda>kd kd'. fst kd = fst kd' \<and> doc_eq (snd kd) (snd kd')) (docs sm) (docs sm'))"

text \<open>
  The metadata that \<^verbatim>\<open>create_toc_dict\<close> can write: none (falsy), a mapping or a list.
\<close>

definition ser_meta_ok :: "pyval \<Rightarrow> bool" where
  "ser_meta_ok m = (\<not> truthy m \<or> (case m of PDict d \<Rightarrow> True | PList xs \<Rightarrow> True | _ \<Rightarrow> False))"

text \<open>
  A parsed site map is the flattening of a tree: every document with the trees of the
  documents that its file items name, in the order of the items.
\<close>

datatype dtree = DTree Document "dtree list"

fun root_doc :: "dtree \<Rightarrow> Document" where "root_doc (DTree d cs) = d"

definition root_name :: "dtree \<Rightarrow> string" where "root_name T = docname (root_doc T)"

fun flat :: "dtree \<Rightarrow> (string \<times> Document) list" where
  "flat (DTree d cs) = (docname d, d) # concat (map flat cs)"

definition names :: "dtree \<Rightarrow> string list" where "names T = map fst (flat T)"

fun file_names_of :: "Item list \<Rightarrow> string list" where
  "file_names_of [] = []"
| "file_names_of (FileItem n # its) = n # file_names_of its"
| "file_names_of (it # its) = file_names_of its"

definition file_names :: "Document \<Rightarrow> string list" where
  "file_names d = file_names_of (concat (map items (subtrees d)))"

text \<open>
  What parsing guarantees of a grouping: it has items, and every option either passed its
  validator or is the built-in default.
\<close>

definition toc_ok :: "api \<Rightarrow> TocTree \<Rightarrow> bool" where
  "toc_ok A t = (items t \<noteq> [] \<and>
     list_all (\<lambda>k. field_valid A k (getattr t k) \<or> getattr t k = field_default A k) TOCTREE_OPTIONS)"

definition doc_ok :: "api \<Rightarrow> Document \<Rightarrow> bool" where
  "doc_ok A d = list_all (toc_ok A) (subtrees d)"

fun wf_tree :: "api \<Rightarrow> dtree \<Rightarrow> bool" where
  "wf_tree A (DTree d cs) =
     (map root_name cs = file_names d \<and> doc_ok A d \<and> list_all (wf_tree A) cs)"

definition entry_name :: "api \<Rightarrow> pydict \<Rightarrow> string" where
  "entry_name A e = py_str A (dict_get e FILE_KEY)"

text \<open>
  The mapping that the serializer writes for a grouping and for a document, given the
  serialized items of each grouping; and what the parser needs of a grouping's mapping to
  read the grouping back.
\<close>

definition toc_dict :: "api \<Rightarrow> TocTree \<Rightarrow> pyval list \<Rightarrow> pyval" where
  "toc_dict A t xs = PDict (AList.update DEFAULT_ITEMS_KEY (PList xs) (toctree_options A True t))"

definition title_val :: "Document \<Rightarrow> pyval" where
  "title_val d = (case title d of None \<Rightarrow> PNone | Some t \<Rightarrow> PStr t)"

definition doc_dict :: "api \<Rightarrow> string \<Rightarrow> Document \<Rightarrow> pyval list list \<Rightarrow> pydict" where
  "doc_dict A fk d xss =
     (if subtrees d = [] then doc_header fk d
      else apply_shorthand
             (AList.update DEFAULT_SUBTREES_KEY
                (PList (map (\<lambda>(t, xs). toc_dict A t xs) (zip (subtrees d) xss)))
                (doc_header fk d)))"

definition toc_src :: "api \<Rightarrow> TocTree \<Rightarrow> pyval \<Rightarrow> pyval list \<Rightarrow> bool" where
  "toc_src A t s xs = (\<exists>g. s = PDict g \<and> map_of g DEFAULT_ITEMS_KEY = Some (PList xs)
       \<and> (\<forall>loc i. parse_items A loc i xs = Inr (items t))
       \<and> (\<forall>k \<in> set TOCTREE_OPTIONS. map_of g k = map_of (toctree_options A True t) k))"

definition entry_eq :: "string \<times> Document \<Rightarrow> string \<times> Document \<Rightarrow> bool" where
  "entry_eq kd kd' = (fst kd = fst kd' \<and> doc_eq (snd kd) (snd kd'))"

text \<open>
  \<open>rt A T fk y\<close>: the mapping \<open>y\<close> reads back as the tree \<open>T\<close>: it parses to a document equal
  to the root of \<open>T\<close>, and its file entries read back as the children of \<open>T\<close>.
\<close>

inductive rt :: "api \<Rightarrow> dtree \<Rightarrow> string \<Rightarrow> pydict \<Rightarrow> bool" for A :: api where
  rtI: "\<lbrakk> \<And>path. \<exists>d'. parse_doc_item A y (PDict []) path fk = Inr (d', ys) \<and> doc_eq d d';
          list_all2 (\<lambda>c e. rt A c FILE_KEY e \<and> map_of e FILE_KEY = Some (PStr (root_name c))) cs ys \<rbrakk>
        \<Longrightarrow> rt A (DTree d cs) fk y"

definition child_rel :: "api \<Rightarrow> dtree \<Rightarrow> pydict \<Rightarrow> bool" where
  "child_rel A c e = (rt A c FILE_KEY e \<and> map_of e FILE_KEY = Some (PStr (root_name c)))"

definition ser_ok :: "api \<Rightarrow> SiteMap \<Rightarrow> dtree \<Rightarrow> bool" where
  "ser_ok A sm c = (\<forall>P. P \<inter> set (names c) = {} \<longrightarrow>
     (\<exists>y. docitem_to_dict A sm True FILE_KEY P (root_doc c) = Inr (y, P \<union> set (names c))
          \<and> rt A c FILE_KEY y
          \<and> map_of y FILE_KEY = Some (PStr (root_name c))
          \<and> map_of y GLOB_KEY = None \<and> map_of y URL_KEY = None))"

text \<open>
  An input whose options are normalized by the round trip (\<^verbatim>\<open>numbered: 0\<close> equals the
  default \<^verbatim>\<open>False\<close> and is not written), and an input whose metadata is a string.
\<close>

definition c1_input :: pyval where
  "c1_input = PDict
     [(''root'', PStr ''index''),
      (''defaults'', PDict [(''numbered'', PInt 0)]),
      (''subtrees'', PList
         [PDict [(''sections'', PList
                    [PDict [(''file'', PStr ''a''), (''title'', PStr ''A''),
                            (''sections'', PList [PDict [(''url'', PStr ''https://x''),
                                                         (''title'', PStr ''X'')]])]]),
                 (''maxdepth'', PInt 2)],
          PDict [(''sections'', PList [PDict [(''glob'', PStr ''*'')]])]])]"

definition c1_toc :: "Item list \<Rightarrow> pyval \<Rightarrow> pyval \<Rightarrow> TocTree" where
  "c1_toc its m n = \<lparr> items = its, caption = PNone, hidden = PBool True, maxdepth = m,
                      numbered = n, reversed = PBool False, titlesonly = PBool False \<rparr>"

definition c1_site_map :: "pyval \<Rightarrow> SiteMap" where
  "c1_site_map n =
     \<lparr> root = \<lparr> docname = ''index'', title = None,
                  subtrees = [c1_toc [FileItem ''a''] (PInt 2) n, c1_toc [GlobItem ''*''] (PInt (- 1)) n] \<rparr>,
       meta = PNone,
       docs = [(''index'', \<lparr> docname = ''index'', title = None,
                  subtrees = [c1_toc [FileItem ''a''] (PInt 2) n, c1_toc [GlobItem ''*''] (PInt (- 1)) n] \<rparr>),
               (''a'', \<lparr> docname = ''a'', title = Some ''A'',
                  subtrees = [c1_toc [UrlItem ''https://x'' (Some ''X'')] (PInt (- 1)) n] \<rparr>)] \<rparr>"

definition c1_output :: pydict where
  "c1_output =
     [(''root'', PStr ''index''),
      (''subtrees'', PList
         [PDict [(''maxdepth'', PInt 2),
                 (''sections'', PList
                    [PDict [(''file'', PStr ''a''), (''title'', PStr ''A''),
                            (''sections'', PList [PDict [(''url'', PStr ''https://x''),
                                                         (''title'', PStr ''X'')]])]])],
          PDict [(''sections'', PList [PDict [(''glob'', PStr ''*'')]])]])]"

definition c1_meta_input :: pyval where
  "c1_meta_input = PDict [(''root'', PStr ''index''), (''meta'', PStr ''x'')]"

definition c1_meta_site_map :: SiteMap where
  "c1_meta_site_map =
     \<lparr> root = \<lparr> docname = ''index'', title = None, subtrees = [] \<rparr>,
       meta = PStr ''x'',
       docs = [(''index'', \<lparr> docname = ''index'', title = None, subtrees = [] \<rparr>)] \<rparr>"


section \<open>The walk of the parser\<close>

text \<open>
  The top-level defaults (line 46), and what \<^verbatim>\<open>parse_toc_data\<close> comes to on an input:
  the states of the loop of \<^verbatim>\<open>_parse_docs_list\<close>, the mappings that
  \<^verbatim>\<open>_parse_doc_item\<close> is called on, and the groupings and item entries that the two
  loops of \<^verbatim>\<open>_parse_doc_item\<close> come to.
\<close>

definition top_defaults :: "pydict \<Rightarrow> pyval" where
  \<comment> \<open>\<^verbatim>\<open>data.get("defaults", {})\<close> of line 46\<close>
  "top_defaults d = (case map_of d ''defaults'' of Some v \<Rightarrow> v | None \<Rightarrow> PDict [])"

text \<open>
  \<open>walk A defaults ds sm path ds' sm' path'\<close>: the call of \<^verbatim>\<open>_parse_docs_list\<close> on the
  entries \<open>ds\<close> with the site map \<open>sm\<close> and the path \<open>path\<close> comes, in its own loop or in
  a call that it makes, to the top of the loop with the entries \<open>ds'\<close> left, the site map
  \<open>sm'\<close> and the path \<open>path'\<close>. The loop goes down to the children of its first entry
  once that entry has parsed, and on to the next entry once the children have parsed.
\<close>

inductive walk ::
  "api \<Rightarrow> pyval \<Rightarrow> pydict list \<Rightarrow> SiteMap \<Rightarrow> string \<Rightarrow> pydict list \<Rightarrow> SiteMap \<Rightarrow> string \<Rightarrow> bool"
  for A :: api and defaults :: pyval where
  walk_here: "walk A defaults ds sm path ds sm path"
| walk_child:
    "\<lbrakk> map_of doc_data FILE_KEY = Some name; sm_contains sm name = Inr False;
       parse_doc_item A doc_data defaults (path @ py_str A name @ ''/'') FILE_KEY
         = Inr (child_item, child_docs_list);
       walk A defaults child_docs_list (sm_setitem sm (docname child_item) child_item)
         (path @ py_str A name @ ''/'') ds' sm' path' \<rbrakk>
     \<Longrightarrow> walk A defaults (doc_data # rest) sm path ds' sm' path'"
| walk_rest:
    "\<lbrakk> map_of doc_data FILE_KEY = Some name; sm_contains sm name = Inr False;
       parse_doc_item A doc_data defaults (path @ py_str A name @ ''/'') FILE_KEY
         = Inr (child_item, child_docs_list);
       parse_docs_list A child_docs_list (sm_setitem sm (docname child_item) child_item)
         defaults (path @ py_str A name @ ''/'') = Inr site_map';
       walk A defaults rest site_map' path ds' sm' path' \<rbrakk>
     \<Longrightarrow> walk A defaults (doc_data # rest) sm path ds' sm' path'"

text \<open>
  The walk that \<^verbatim>\<open>parse_toc_data\<close> starts once the root has parsed; the mappings that
  \<^verbatim>\<open>_parse_doc_item\<close> is called on, with the path and file key of the call: the root
  mapping, or the first entry of a state of the walk whose docname is not a key yet; the
  groupings that the loop of line 84 comes to in such a call (the groupings before have
  parsed); the item entries that the loop of line 100 comes to in such a grouping (the
  entries before have parsed).
\<close>

definition walk_reaches :: "api \<Rightarrow> pydict \<Rightarrow> pydict list \<Rightarrow> SiteMap \<Rightarrow> string \<Rightarrow> bool" where
  \<comment> \<open>the parse of the input \<open>d\<close> comes to the loop state \<open>ds\<close>, \<open>sm\<close>, \<open>path\<close>\<close>
  "walk_reaches A d ds sm path =
     (\<exists>doc_item docs_list.
        parse_doc_item A d (top_defaults d) ''/'' ''root'' = Inr (doc_item, docs_list)
        \<and> walk A (top_defaults d) docs_list (SiteMap_new doc_item (dict_get d ''meta'')) ''/''
             ds sm path)"

definition parses_doc :: "api \<Rightarrow> pydict \<Rightarrow> pydict \<Rightarrow> string \<Rightarrow> string \<Rightarrow> bool" where
  \<comment> \<open>the parse of the input \<open>d\<close> calls \<^verbatim>\<open>_parse_doc_item\<close> on \<open>data\<close> with this path
      and file key\<close>
  "parses_doc A d data path file_key =
     (data = d \<and> path = ''/'' \<and> file_key = ''root''
      \<or> (\<exists>rest sm p name. walk_reaches A d (data # rest) sm p
            \<and> map_of data FILE_KEY = Some name \<and> sm_contains sm name = Inr False
            \<and> path = p @ py_str A name @ ''/'' \<and> file_key = FILE_KEY))"

definition parses_grouping ::
  "api \<Rightarrow> pyval \<Rightarrow> pydict \<Rightarrow> string \<Rightarrow> string \<Rightarrow> nat \<Rightarrow> pyval \<Rightarrow> bool" where
  \<comment> \<open>that call comes to the grouping \<open>toc_data\<close> at the index \<open>toc_idx\<close>\<close>
  "parses_grouping A defaults data path file_key toc_idx toc_data =
     (has_key data file_key
      \<and> (\<exists>subtrees_data ts. subtrees_data_of data path = Inr subtrees_data
            \<and> toc_idx < length subtrees_data \<and> subtrees_data ! toc_idx = toc_data
            \<and> parse_toctrees A defaults path 0 (take toc_idx subtrees_data) = Inr ts))"


definition url_fails :: "pyval \<Rightarrow> bool" where
  \<comment> \<open>an item entry whose only link key is \<^verbatim>\<open>url\<close> and for which \<^verbatim>\<open>UrlItem(...)\<close> raises\<close>
  "url_fails item_data = (case item_data of
       PDict u \<Rightarrow> link_keys_of u = [URL_KEY]
                  \<and> UrlItem_new (dict_get u URL_KEY) (dict_get u ''title'') = None
     | _ \<Rightarrow> False)"

definition is_duplicate_error :: "error \<Rightarrow> bool" where
  \<comment> \<open>the error "document file used multiple times"\<close>
  "is_duplicate_error e = (case e of MalformedError (UsedMultipleTimes n) \<Rightarrow> True | _ \<Rightarrow> False)"


section \<open>What the serializer inlines\<close>

text \<open>
  \<open>inlined sm its ns\<close>: \<open>ns\<close> lists, in the order of the traversal, the docnames of the
  documents that the serialization of the items \<open>its\<close> inlines when nothing stops it: for
  every file item that resolves, the document it names and then what the items of that
  document inline. \<open>inlined_by sm doc ns\<close> is the same for the serialization of a
  document, which comes first in its list. A site map with a cycle has no such list.
\<close>

inductive inlined :: "SiteMap \<Rightarrow> Item list \<Rightarrow> string list \<Rightarrow> bool" for sm :: SiteMap where
  inlined_Nil: "inlined sm [] []"
| inlined_File:
    "\<lbrakk> sm_lookup sm name = Some doc;
       inlined sm (concat (map items (subtrees doc))) ns; inlined sm rest ns' \<rbrakk>
     \<Longrightarrow> inlined sm (FileItem name # rest) (docname doc # ns @ ns')"
| inlined_Dangling:
    "\<lbrakk> sm_lookup sm name = None; inlined sm rest ns \<rbrakk> \<Longrightarrow> inlined sm (FileItem name # rest) ns"
| inlined_Glob: "inlined sm rest ns \<Longrightarrow> inlined sm (GlobItem pat # rest) ns"
| inlined_Url: "inlined sm rest ns \<Longrightarrow> inlined sm (UrlItem url ttl # rest) ns"

definition inlined_by :: "SiteMap \<Rightarrow> Document \<Rightarrow> string list \<Rightarrow> bool" where
  \<comment> \<open>the document itself, then what its items inline\<close>
  "inlined_by sm doc ns =
     (ns \<noteq> [] \<and> hd ns = docname doc \<and> inlined sm (concat (map items (subtrees doc))) (tl ns))"

definition visits_once :: "string set \<Rightarrow> string list \<Rightarrow> bool" where
  \<comment> \<open>no docname of \<open>ns\<close> comes twice and none is in the visited set \<open>P\<close>\<close>
  "visits_once P ns = (distinct ns \<and> P \<inter> set ns = {})"



section \<open>Further instances\<close>

definition plain_doc :: "string \<Rightarrow> Item list list \<Rightarrow> Document" where
  \<comment> \<open>a document without title whose groupings have the default options of \<open>api0\<close>\<close>
  "plain_doc n groups = \<lparr> docname = n, title = None, subtrees = map (default_toctree api0) groups \<rparr>"

definition c3_input :: pydict where
  \<comment> \<open>the documents \<open>a\<close> and \<open>b\<close> both list the document \<open>c\<close>\<close>
  "c3_input =
     [(''root'', PStr ''index''),
      (''sections'', PList
         [PDict [(''file'', PStr ''a''), (''sections'', PList [PDict [(''file'', PStr ''c'')]])],
          PDict [(''file'', PStr ''b''), (''sections'', PList [PDict [(''file'', PStr ''c'')]])]])]"

definition c3_state :: SiteMap where
  \<comment> \<open>the site map when the walk of \<open>c3_input\<close> comes to the second entry for \<open>c\<close>\<close>
  "c3_state =
     \<lparr> root = plain_doc ''index'' [[FileItem ''a'', FileItem ''b'']], meta = PNone,
       docs = [(''index'', plain_doc ''index'' [[FileItem ''a'', FileItem ''b'']]),
               (''a'', plain_doc ''a'' [[FileItem ''c'']]),
               (''c'', plain_doc ''c'' []),
               (''b'', plain_doc ''b'' [[FileItem ''c'']])] \<rparr>"

definition c3_root_input :: pydict where
  \<comment> \<open>the document \<open>a\<close> lists the root\<close>
  "c3_root_input =
     [(''root'', PStr ''index''),
      (''sections'', PList
         [PDict [(''file'', PStr ''a''), (''sections'', PList [PDict [(''file'', PStr ''index'')]])]])]"

definition c3_root_state :: SiteMap where
  \<comment> \<open>the site map when the walk of \<open>c3_root_input\<close> comes to the entry for \<open>index\<close>\<close>
  "c3_root_state =
     \<lparr> root = plain_doc ''index'' [[FileItem ''a'']], meta = PNone,
       docs = [(''index'', plain_doc ''index'' [[FileItem ''a'']]),
               (''a'', plain_doc ''a'' [[FileItem ''index'']])] \<rparr>"




definition c5_grouping :: pydict where
  \<comment> \<open>a grouping with its own \<^verbatim>\<open>maxdepth\<close> and a key that is no option\<close>
  "c5_grouping = [(''sections'', PList [PDict [(''glob'', PStr ''*'')]]), (''maxdepth'', PInt 2),
                  (''foo'', PInt 1)]"

definition c5_entry :: pydict where
  \<comment> \<open>the document \<open>a\<close> with that grouping\<close>
  "c5_entry = [(''file'', PStr ''a''), (''subtrees'', PList [PDict c5_grouping])]"

definition c5_input :: pydict where
  \<comment> \<open>defaults for \<^verbatim>\<open>hidden\<close> and \<^verbatim>\<open>maxdepth\<close>; the root lists \<open>a\<close>\<close>
  "c5_input = [(''root'', PStr ''index''),
               (''defaults'', PDict [(''hidden'', PBool False), (''maxdepth'', PInt 3)]),
               (''sections'', PList [PDict c5_entry])]"

definition c5_site_map :: SiteMap where
  \<comment> \<open>the site map that \<open>c5_input\<close> parses to with \<open>api0\<close>\<close>
  "c5_site_map =
     \<lparr> root = \<lparr> docname = ''index'', title = None,
                  subtrees = [c1_toc [FileItem ''a''] (PInt 3) (PBool False) \<lparr> hidden := PBool False \<rparr>] \<rparr>,
       meta = PNone,
       docs = [(''index'', \<lparr> docname = ''index'', title = None,
                  subtrees = [c1_toc [FileItem ''a''] (PInt 3) (PBool False) \<lparr> hidden := PBool False \<rparr>] \<rparr>),
               (''a'', \<lparr> docname = ''a'', title = None,
                  subtrees = [c1_toc [GlobItem ''*''] (PInt 2) (PBool False) \<lparr> hidden := PBool False \<rparr>] \<rparr>)] \<rparr>"

definition c7_grouping :: pydict where
  \<comment> \<open>a grouping whose \<^verbatim>\<open>maxdepth\<close> is a string\<close>
  "c7_grouping = [(''sections'', PList [PDict [(''glob'', PStr ''*'')]]), (''maxdepth'', PStr ''x'')]"

definition c7_entry :: pydict where
  \<comment> \<open>the document \<open>b\<close>, whose second grouping has a \<^verbatim>\<open>maxdepth\<close> that is no integer\<close>
  "c7_entry = [(''file'', PStr ''b''),
               (''subtrees'', PList [PDict [(''sections'', PList [PDict [(''file'', PStr ''c'')]])],
                                     PDict c7_grouping])]"

definition c7_input :: pydict where
  \<comment> \<open>the root lists \<open>a\<close> and then \<open>b\<close>\<close>
  "c7_input = [(''root'', PStr ''index''),
               (''sections'', PList [PDict [(''file'', PStr ''a'')], PDict c7_entry])]"

definition c7_doc_input :: pydict where
  \<comment> \<open>the document \<open>a\<close> has a title that is no string\<close>
  "c7_doc_input = [(''root'', PStr ''index''),
                   (''sections'', PList [PDict [(''file'', PStr ''a''), (''title'', PInt 5)]])]"

definition c9_ok_input :: pydict where
  \<comment> \<open>an unrecognized key in \<^verbatim>\<open>defaults\<close>, nothing else wrong\<close>
  "c9_ok_input = [(''root'', PStr ''index''), (''defaults'', PDict [(''foo'', PInt 1)]),
                  (''sections'', PList [PDict [(''file'', PStr ''a'')]])]"

definition c9_url_input :: pydict where
  \<comment> \<open>an unrecognized key in \<^verbatim>\<open>defaults\<close> and a \<^verbatim>\<open>url\<close> that is no string\<close>
  "c9_url_input = [(''root'', PStr ''index''), (''defaults'', PDict [(''foo'', PInt 1)]),
                   (''sections'', PList [PDict [(''url'', PInt 5)]])]"



section \<open>Auxiliary lemmas\<close>

lemma show_nat_small:
  "show_nat 0 = ''0''" "show_nat (Suc 0) = ''1''" "show_nat 1 = ''1''" "show_nat 2 = ''2''"
  by code_simp+

lemmas key_defs = DEFAULT_SUBTREES_KEY_def DEFAULT_ITEMS_KEY_def FILE_KEY_def GLOB_KEY_def URL_KEY_def

lemmas parse_defs = parse_toc_data_def parse_doc_item_def subtrees_data_of_def parse_toctree_def
  parse_item_entry_def link_keys_of_def incompatible_keys_def own_keywords_def merge_defaults_def add_default_def
  TocTree_new_def Document_new_def UrlItem_new_def docs_data_of_def file_entries_def
  has_key_def dict_get_def dict_merge_def seq_elems_def kw_value_def TOCTREE_OPTIONS_def
  SiteMap_new_def sm_contains_def sm_lookup_def sm_setitem_def py_str_def
  List.map_filter_def show_nat_small parse_docs_list.simps

lemma sm_lookup_setitem:
  "sm_lookup (sm_setitem sm k d) n = (if n = k then Some d else sm_lookup sm n)"
  by (simp add: sm_lookup_def sm_setitem_def update_conv')

lemma root_setitem [simp]: "root (sm_setitem sm k d) = root sm"
  by (simp add: sm_setitem_def)

lemma meta_setitem [simp]: "meta (sm_setitem sm k d) = meta sm"
  by (simp add: sm_setitem_def)

lemma parse_docs_list_keeps:
  "parse_docs_list A ds sm defaults path = Inr sm' \<Longrightarrow>
     root sm' = root sm \<and> meta sm' = meta sm \<and> (\<forall>n. sm_lookup sm n \<noteq> None \<longrightarrow> sm_lookup sm' n = sm_lookup sm n)"
proof (induction A ds sm defaults path arbitrary: sm' rule: parse_docs_list.induct)
  case (1 A sm defaults path)
  then show ?case by (simp add: parse_docs_list.simps)
next
  case (2 A doc_data rest sm defaults path)
  from 2(3) obtain name where name: "map_of doc_data FILE_KEY = Some name"
    by (auto simp: parse_docs_list.simps split: option.splits)
  from 2(3) name have c: "sm_contains sm name = Inr False"
    by (auto simp: parse_docs_list.simps split: sum.splits bool.splits)
  let ?cp = "path @ py_str A name @ ''/''"
  from 2(3) name c obtain child ds' where
    p: "parse_doc_item A doc_data defaults ?cp FILE_KEY = Inr (child, ds')"
    by (auto simp: parse_docs_list.simps Let_def split: sum.splits)
  from 2(3) name c p obtain sm1 where
    r1: "parse_docs_list A ds' (sm_setitem sm (docname child) child) defaults ?cp = Inr sm1"
    and r2: "parse_docs_list A rest sm1 defaults path = Inr sm'"
    by (auto simp: parse_docs_list.simps Let_def split: sum.splits)
  have nm: "name = PStr (docname child)"
    using p by (auto simp: parse_doc_item_def Document_new_def dict_get_def name
        split: if_splits sum.splits option.splits pyval.splits)
  from c nm have notin: "sm_lookup sm (docname child) = None"
    by (simp add: sm_contains_def)
  note ih1 = 2(1)[OF name c refl refl p refl r1]
  note ih2 = 2(2)[OF name c refl refl p refl r1 r2]
  show ?case using ih1 ih2 notin by (auto simp: sm_lookup_setitem)
qed

lemma has_key_iff: "has_key d k \<longleftrightarrow> k \<in> fst ` set d"
  by (simp add: has_key_def map_of_eq_None_iff)



lemma dict_merge_Nil [simp]: "dict_merge d [] = d"
  by (simp add: dict_merge_def)


lemma map_of_map_filter_keys:
  "map_of (List.map_filter (\<lambda>k. map_option (Pair k) (f k)) ks) k =
     (if k \<in> set ks then f k else None)"
  by (induction ks) (auto simp: List.map_filter_simps split: option.splits)

lemma map_of_own_keywords:
  "map_of (own_keywords d) k = (if k \<in> set TOCTREE_OPTIONS then map_of d k else None)"
  unfolding own_keywords_def by (rule map_of_map_filter_keys)

lemma map_of_add_default:
  "map_of (add_default (a, b) kw) k =
     (case map_of kw k of Some v \<Rightarrow> Some v | None \<Rightarrow> if k = a then Some b else None)"
  by (auto simp: add_default_def has_key_def map_add_def split: option.splits)

lemma map_of_fold_defaults:
  "map_of (fold add_default dd kw) k =
     (case map_of kw k of Some v \<Rightarrow> Some v | None \<Rightarrow> map_of dd k)"
proof (induction dd arbitrary: kw)
  case Nil
  show ?case by (simp split: option.splits)
next
  case (Cons p dd)
  obtain a b where p: "p = (a, b)" by (cases p)
  show ?case
    by (simp add: p Cons map_of_add_default split: option.splits)
qed

lemma fst_set_fold_defaults:
  "fst ` set (fold add_default dd kw) = fst ` set kw \<union> fst ` set dd"
proof (induction dd arbitrary: kw)
  case Nil
  show ?case by simp
next
  case (Cons p dd)
  have "fst ` set (add_default p kw) = insert (fst p) (fst ` set kw)"
    by (auto simp: add_default_def has_key_iff)
  then show ?case by (simp add: Cons)
qed

lemma TOCTREE_OPTIONS_cases:
  "k \<in> set TOCTREE_OPTIONS \<Longrightarrow> k = ''caption'' \<or> k = ''hidden'' \<or> k = ''maxdepth''
     \<or> k = ''numbered'' \<or> k = ''reversed'' \<or> k = ''titlesonly''"
  by (simp add: TOCTREE_OPTIONS_def)

lemma TocTree_new_SomeD:
  "TocTree_new A its kw = Some t \<Longrightarrow>
     t = \<lparr> items = its,
           caption = kw_value A kw ''caption'',
           hidden = kw_value A kw ''hidden'',
           maxdepth = kw_value A kw ''maxdepth'',
           numbered = kw_value A kw ''numbered'',
           reversed = kw_value A kw ''reversed'',
           titlesonly = kw_value A kw ''titlesonly'' \<rparr>
     \<and> list_all (\<lambda>(k, v). k \<in> set TOCTREE_OPTIONS \<and> field_valid A k v) kw"
  by (simp add: TocTree_new_def split: if_splits)

lemma getattr_TocTree_new:
  assumes "TocTree_new A its kw = Some t" and "k \<in> set TOCTREE_OPTIONS"
  shows "getattr t k = kw_value A kw k"
proof -
  note t = TocTree_new_SomeD[OF assms(1), THEN conjunct1]
  from TOCTREE_OPTIONS_cases[OF assms(2)] show ?thesis
    by (elim disjE) (simp_all add: t getattr_def)
qed

lemma items_TocTree_new: "TocTree_new A its kw = Some t \<Longrightarrow> items t = its"
  by (auto simp: TocTree_new_def split: if_splits)

lemma parse_toctree_InrD:
  assumes "parse_toctree A defaults loc toc_data = Inr t"
  obtains d v x xs its kw where "toc_data = PDict d" "map_of d DEFAULT_ITEMS_KEY = Some v"
    "seq_elems v = Some (x # xs)" "parse_items A loc 0 (x # xs) = Inr its"
    "merge_defaults defaults (own_keywords d) = Inr (kw, False)" "TocTree_new A its kw = Some t"
proof -
  from assms obtain d where d: "toc_data = PDict d"
    by (cases toc_data) (simp_all add: parse_toctree_def)
  from assms d obtain v where v: "map_of d DEFAULT_ITEMS_KEY = Some v"
    by (cases "map_of d DEFAULT_ITEMS_KEY") (simp_all add: parse_toctree_def)
  from assms d v obtain x xs where xs: "seq_elems v = Some (x # xs)"
    by (cases "seq_elems v"; cases "the (seq_elems v)") (simp_all add: parse_toctree_def)
  from assms d v xs obtain its where its: "parse_items A loc 0 (x # xs) = Inr its"
    by (cases "parse_items A loc 0 (x # xs)") (simp_all add: parse_toctree_def)
  from assms d v xs its obtain kw bad where
    kw: "merge_defaults defaults (own_keywords d) = Inr (kw, bad)"
    by (cases "merge_defaults defaults (own_keywords d)") (auto simp: parse_toctree_def)
  from assms d v xs its kw have "\<not> bad" "TocTree_new A its kw = Some t"
    by (auto simp: parse_toctree_def split: if_splits option.splits)
  with d v xs its kw that show thesis by simp
qed

lemma map_of_filter_key:
  "map_of (filter (\<lambda>(k, v). P k) d) k = (if P k then map_of d k else None)"
  by (induction d) auto

lemma map_of_recognized_part:
  "k \<in> set TOCTREE_OPTIONS \<or> k = DEFAULT_ITEMS_KEY \<Longrightarrow>
     map_of (recognized_part d) k = map_of d k"
  unfolding recognized_part_def by (simp only: map_of_filter_key if_True)

lemma map_filter_cong_set:
  "(\<And>x. x \<in> set xs \<Longrightarrow> f x = g x) \<Longrightarrow> List.map_filter f xs = List.map_filter g xs"
  by (induction xs) (auto simp: List.map_filter_simps split: option.splits)

lemma own_keywords_recognized_part: "own_keywords (recognized_part d) = own_keywords d"
  unfolding own_keywords_def
  by (rule map_filter_cong_set) (simp add: map_of_recognized_part)

lemma parse_toctree_recognized_part:
  "parse_toctree A defaults loc (PDict (recognized_part d)) = parse_toctree A defaults loc (PDict d)"
  by (simp add: parse_toctree_def map_of_recognized_part own_keywords_recognized_part
      split: option.splits list.splits sum.splits)

lemma TocTree_new_unrecognized:
  assumes "k \<in> fst ` set kw" and "k \<notin> set TOCTREE_OPTIONS"
  shows "TocTree_new A its kw = None"
proof -
  from assms(1) obtain v where "(k, v) \<in> set kw" by auto
  with assms(2) have "\<not> list_all (\<lambda>(k, v). k \<in> set TOCTREE_OPTIONS \<and> field_valid A k v) kw"
    by (auto simp: list_all_iff)
  then show ?thesis by (simp add: TocTree_new_def)
qed

lemma parse_toctree_unrecognized_default:
  assumes "k \<in> fst ` set dd" and "k \<notin> set TOCTREE_OPTIONS"
  shows "parse_toctree A (PDict dd) loc toc_data \<noteq> Inr t"
proof
  assume "parse_toctree A (PDict dd) loc toc_data = Inr t"
  then obtain d its kw where
    kw: "merge_defaults (PDict dd) (own_keywords d) = Inr (kw, False)"
    and t: "TocTree_new A its kw = Some t"
    by (elim parse_toctree_InrD) auto
  from kw have "kw = fold add_default dd (own_keywords d)"
    by (simp add: merge_defaults_def)
  with assms(1) have "k \<in> fst ` set kw" by (simp add: fst_set_fold_defaults)
  from TocTree_new_unrecognized[OF this assms(2)] t show False by simp
qed

lemma parse_toctree_unrecognized_default_items:
  assumes "k \<in> fst ` set dd" and "k \<notin> set TOCTREE_OPTIONS"
    and "map_of g DEFAULT_ITEMS_KEY = Some v" and "seq_elems v = Some (x # xs)"
    and "parse_items A loc 0 (x # xs) = Inr its"
  shows "parse_toctree A (PDict dd) loc (PDict g) = Inl (MalformedError (ToctreeValidation loc))"
proof -
  have "k \<in> fst ` set (fold add_default dd (own_keywords g))"
    using assms(1) by (simp add: fst_set_fold_defaults)
  from TocTree_new_unrecognized[OF this assms(2)] assms(3,4,5) show ?thesis
    by (simp add: parse_toctree_def merge_defaults_def)
qed

lemma subtrees_data_of_nonempty:
  assumes "has_key data DEFAULT_ITEMS_KEY \<or> has_key data DEFAULT_SUBTREES_KEY"
    and "subtrees_data_of data path = Inr sd"
  shows "sd \<noteq> []"
  using assms
  by (auto simp: subtrees_data_of_def split: if_splits option.splits pyval.splits list.splits)

lemma serializer_mono:
  "docitem_to_dict A sm skip fk P doc = Inr (d, P') \<Longrightarrow> docname doc \<notin> P \<and> insert (docname doc) P \<subseteq> P'"
  "serialize_item A sm skip P it = Inr (x, P') \<Longrightarrow> P \<subseteq> P'"
  "items_to_list A sm skip P its = Inr (xs, P') \<Longrightarrow> P \<subseteq> P'"
  "subtrees_to_list A sm skip P ts = Inr (ys, P') \<Longrightarrow> P \<subseteq> P'"
proof (induction A sm skip fk P doc and A sm skip P it and A sm skip P its and A sm skip P ts
    arbitrary: d P' and x P' and xs P' and ys P'
    rule: docitem_to_dict_serialize_item_items_to_list_subtrees_to_list.induct)
  case (1 A sm skip fk P doc)
  from 1(2) show ?case
    by (auto simp: docitem_to_dict.simps[of A sm skip fk P doc] split: if_splits sum.splits
        dest!: 1(1))
next
  case (2 A sm skip P name)
  from 2(2) show ?case
    by (auto split: option.splits sum.splits dest!: 2(1))
next
  case (6 A sm skip P item rest)
  from 6(3) obtain x Q xs' where a: "serialize_item A sm skip P item = Inr (x, Q)"
    and b: "items_to_list A sm skip Q rest = Inr (xs', P')"
    by (auto split: sum.splits)
  from 6(1)[OF a] 6(2)[OF a refl b] show ?case by blast
next
  case (8 A sm skip P toctree rest)
  from 8(3) obtain xs Q ts' where a: "items_to_list A sm skip P (items toctree) = Inr (xs, Q)"
    and b: "subtrees_to_list A sm skip Q rest = Inr (ts', P')"
    by (auto split: sum.splits)
  from 8(1)[OF a] 8(2)[OF a refl b] show ?case by blast
qed (auto split: option.splits)

lemma serializer_errors:
  "docitem_to_dict A sm skip fk P doc = Inl e \<Longrightarrow> \<exists>n. e = RecursionError n"
  "serialize_item A sm skip P it = Inl e \<Longrightarrow> \<exists>n. e = RecursionError n"
  "items_to_list A sm skip P its = Inl e \<Longrightarrow> \<exists>n. e = RecursionError n"
  "subtrees_to_list A sm skip P ts = Inl e \<Longrightarrow> \<exists>n. e = RecursionError n"
proof (induction A sm skip fk P doc and A sm skip P it and A sm skip P its and A sm skip P ts
    rule: docitem_to_dict_serialize_item_items_to_list_subtrees_to_list.induct)
  case (1 A sm skip fk P doc)
  from 1(2) show ?case
    by (auto simp: docitem_to_dict.simps[of A sm skip fk P doc] split: if_splits sum.splits
        dest!: 1(1))
next
  case (2 A sm skip P name)
  from 2(2) show ?case
    by (auto split: option.splits sum.splits dest!: 2(1))
next
  case (6 A sm skip P item rest)
  from 6(3) show ?case
    by (auto split: sum.splits dest: 6(1) 6(2))
next
  case (8 A sm skip P toctree rest)
  from 8(3) show ?case
    by (auto split: sum.splits dest: 8(1) 8(2))
qed (auto split: option.splits)

lemma items_to_list_append:
  "items_to_list A sm skip P (its1 @ its2) =
     (case items_to_list A sm skip P its1 of
        Inl e \<Rightarrow> Inl e
      | Inr (xs1, Q) \<Rightarrow> (case items_to_list A sm skip Q its2 of
            Inl e \<Rightarrow> Inl e
          | Inr (xs2, P') \<Rightarrow> Inr (xs1 @ xs2, P')))"
  by (induction its1 arbitrary: P) (auto split: sum.splits)

lemma subtrees_to_list_items:
  "subtrees_to_list A sm skip P ts = Inr (ys, P') \<Longrightarrow>
     \<exists>xs. items_to_list A sm skip P (concat (map items ts)) = Inr (xs, P')"
proof (induction ts arbitrary: P ys)
  case Nil
  then show ?case by simp
next
  case (Cons t ts)
  from Cons.prems obtain xs Q ts' where a: "items_to_list A sm skip P (items t) = Inr (xs, Q)"
    and b: "subtrees_to_list A sm skip Q ts = Inr (ts', P')"
    by (auto split: sum.splits)
  from Cons.IH[OF b] a show ?case by (auto simp: items_to_list_append)
qed

lemma fst_toctree_options:
  "fst ` set (toctree_options A skip t) \<subseteq> set TOCTREE_OPTIONS"
  by (auto simp: toctree_options_def)

lemma items_key_not_option: "DEFAULT_ITEMS_KEY \<notin> set TOCTREE_OPTIONS"
  by (simp add: TOCTREE_OPTIONS_def key_defs)

lemma update_fresh: "k \<notin> fst ` set d \<Longrightarrow> AList.update k v d = d @ [(k, v)]"
  by (induction d) auto

lemma toctree_data_shape:
  "AList.update DEFAULT_ITEMS_KEY v (toctree_options A skip t)
     = toctree_options A skip t @ [(DEFAULT_ITEMS_KEY, v)]"
  using fst_toctree_options[of A skip t] items_key_not_option
  by (intro update_fresh) auto

lemma filter_toctree_options:
  "filter (\<lambda>(k, v). k \<noteq> DEFAULT_ITEMS_KEY) (toctree_options A skip t) = toctree_options A skip t"
  using fst_toctree_options[of A skip t] items_key_not_option
  by (intro filter_True) (auto simp: image_subset_iff)

lemma map_of_toctree_options_items:
  "map_of (toctree_options A skip t) DEFAULT_ITEMS_KEY = None"
  using fst_toctree_options[of A skip t] items_key_not_option
  by (auto simp: map_of_eq_None_iff)

lemma apply_shorthand_single:
  fixes A skip t v hdr
  defines "opts \<equiv> toctree_options A skip t"
  shows "apply_shorthand
           (AList.update DEFAULT_SUBTREES_KEY
              (PList [PDict (AList.update DEFAULT_ITEMS_KEY v opts)]) hdr)
     = (let data2 = AList.update DEFAULT_ITEMS_KEY v (AList.delete DEFAULT_SUBTREES_KEY hdr)
        in if opts \<noteq> [] then AList.update ''options'' (PDict opts) data2 else data2)"
proof -
  let ?td = "opts @ [(DEFAULT_ITEMS_KEY, v)]"
  have td: "AList.update DEFAULT_ITEMS_KEY v opts = ?td"
    unfolding opts_def by (rule toctree_data_shape)
  have k: "has_key ?td DEFAULT_ITEMS_KEY" by (simp add: has_key_iff)
  have g: "dict_get ?td DEFAULT_ITEMS_KEY = v"
    using map_of_toctree_options_items[of A skip t]
    by (simp add: dict_get_def map_add_def opts_def)
  have f0: "filter (\<lambda>(k, v). k \<noteq> DEFAULT_ITEMS_KEY) opts = opts"
    unfolding opts_def by (rule filter_toctree_options)
  have f: "filter (\<lambda>(k, v). k \<noteq> DEFAULT_ITEMS_KEY) ?td = opts"
    by (simp add: f0)
  have d: "AList.delete DEFAULT_SUBTREES_KEY (AList.update DEFAULT_SUBTREES_KEY x hdr)
             = AList.delete DEFAULT_SUBTREES_KEY hdr" for x
    by (induction hdr) auto
  have l: "(1 < length ?td) = (opts \<noteq> [])" by (cases opts) auto
  show ?thesis
    unfolding td apply_shorthand_def
    by (simp add: update_conv' k g f f0 d Let_def l[simplified])
qed

lemma map_of_toctree_options:
  "map_of (toctree_options A skip t) k =
     (if k \<in> set TOCTREE_OPTIONS \<and> (\<not> skip \<or> \<not> py_eq (getattr t k) (field_default A k))
      then Some (getattr t k) else None)"
proof -
  have "map_of (map (\<lambda>k. (k, f k)) ks) k = (if k \<in> set ks then Some (f k) else None)"
    for f :: "string \<Rightarrow> pyval" and ks
    by (induction ks) auto
  then show ?thesis unfolding toctree_options_def by simp
qed

lemma map_of_doc_header:
  assumes "fk = ''root'' \<or> fk = ''file''"
  shows "map_of (doc_header fk d) k =
           (if k = ''title'' then map_option PStr (title d)
            else if k = fk then Some (PStr (docname d)) else None)"
  using assms by (auto simp: doc_header_def Let_def update_conv' split: option.splits)

lemma map_of_apply_shorthand_other:
  assumes "k \<noteq> DEFAULT_ITEMS_KEY" "k \<noteq> DEFAULT_SUBTREES_KEY" "k \<noteq> ''options''"
  shows "map_of (apply_shorthand data) k = map_of data k"
  using assms
  by (auto simp: apply_shorthand_def Let_def update_conv' delete_conv'
      split: option.splits pyval.splits list.splits)

subsection \<open>Errors on the walk reach the caller\<close>

lemma parse_toc_data_unfold:
  "parse_toc_data A (PDict d) =
     (case parse_doc_item A d (top_defaults d) ''/'' ''root'' of
        Inl e \<Rightarrow> Inl e
      | Inr (doc_item, docs_list) \<Rightarrow>
          parse_docs_list A docs_list (SiteMap_new doc_item (dict_get d ''meta''))
            (top_defaults d) ''/'')"
  unfolding parse_toc_data_def top_defaults_def Let_def by simp

lemma walk_error:
  "walk A df ds sm path ds' sm' path' \<Longrightarrow> parse_docs_list A ds' sm' df path' = Inl e \<Longrightarrow>
     parse_docs_list A ds sm df path = Inl e"
  by (induction rule: walk.induct) (simp_all add: parse_docs_list.simps)

lemma walk_keeps_keys:
  "walk A df ds sm path ds' sm' path' \<Longrightarrow> sm_lookup sm n \<noteq> None \<Longrightarrow> sm_lookup sm' n \<noteq> None"
proof (induction rule: walk.induct)
  case (walk_here ds sm path)
  then show ?case by simp
next
  case (walk_child doc_data name sm path child_item child_docs_list ds' sm' path' rest)
  then show ?case by (simp add: sm_lookup_setitem)
next
  case (walk_rest doc_data name sm path child_item child_docs_list sm1 rest ds' sm' path')
  from parse_docs_list_keeps[OF walk_rest(4)] walk_rest(7)
  have "sm_lookup sm1 n \<noteq> None" by (auto simp: sm_lookup_setitem)
  then show ?case by (rule walk_rest(6))
qed

lemma walk_reaches_error:
  "walk_reaches A d ds sm path \<Longrightarrow> parse_docs_list A ds sm (top_defaults d) path = Inl e \<Longrightarrow>
     parse_toc_data A (PDict d) = Inl e"
  by (auto simp: walk_reaches_def parse_toc_data_unfold dest: walk_error)

lemma parses_doc_error:
  assumes "parses_doc A d data path fk"
    and "parse_doc_item A data (top_defaults d) path fk = Inl e"
  shows "parse_toc_data A (PDict d) = Inl e"
  using assms(1) unfolding parses_doc_def
proof (elim disjE exE conjE)
  assume "data = d" "path = ''/''" "fk = ''root''"
  with assms(2) show ?thesis by (simp add: parse_toc_data_unfold)
next
  fix rest sm p name
  assume r: "walk_reaches A d (data # rest) sm p" and n: "map_of data FILE_KEY = Some name"
    and c: "sm_contains sm name = Inr False" and p: "path = p @ py_str A name @ ''/''"
    and f: "fk = FILE_KEY"
  from assms(2) n c p f have "parse_docs_list A (data # rest) sm (top_defaults d) p = Inl e"
    by (simp add: parse_docs_list.simps)
  from walk_reaches_error[OF r this] show ?thesis .
qed


lemma parse_toctrees_append:
  "parse_toctrees A df path i (xs @ ys) =
     (case parse_toctrees A df path i xs of
        Inl e \<Rightarrow> Inl e
      | Inr ts \<Rightarrow> (case parse_toctrees A df path (i + length xs) ys of
            Inl e \<Rightarrow> Inl e
          | Inr ts' \<Rightarrow> Inr (ts @ ts')))"
  by (induction xs arbitrary: i) (auto split: sum.splits)


lemma parses_grouping_error:
  assumes "parses_grouping A df data path fk i td"
    and "parse_toctree A df (path @ show_nat i) td = Inl e"
  shows "parse_doc_item A data df path fk = Inl e"
proof -
  from assms(1) obtain sd ts where k: "has_key data fk"
    and sd: "subtrees_data_of data path = Inr sd" and i: "i < length sd" "sd ! i = td"
    and ts: "parse_toctrees A df path 0 (take i sd) = Inr ts"
    by (auto simp: parses_grouping_def)
  from id_take_nth_drop[OF i(1)] i(2) have split: "sd = take i sd @ td # drop (Suc i) sd"
    by simp
  have "parse_toctrees A df path 0 (take i sd @ td # drop (Suc i) sd) = Inl e"
    using ts assms(2) i(1) by (simp add: parse_toctrees_append)
  with split have "parse_toctrees A df path 0 sd = Inl e" by simp
  with k sd show ?thesis by (simp add: parse_doc_item_def)
qed



lemma link_keys_of_cases:
  obtains (zero) "link_keys_of u = []" | (many) "1 < length (link_keys_of u)"
    | (onefile) "link_keys_of u = [FILE_KEY]" | (oneglob) "link_keys_of u = [GLOB_KEY]"
    | (oneurl) "link_keys_of u = [URL_KEY]"
proof -
  have "set (link_keys_of u) \<subseteq> {FILE_KEY, GLOB_KEY, URL_KEY}"
    by (auto simp: link_keys_of_def)
  then show thesis using that
    by (cases "link_keys_of u"; cases "tl (link_keys_of u)") auto
qed

lemma parse_item_entry_error:
  assumes "parse_item_entry A loc x = Inl e"
  shows "(\<exists>m. e = MalformedError m) \<or> (e = TypeError ''UrlItem'' \<and> url_fails x)"
proof (cases x)
  case (PDict u)
  show ?thesis
  proof (cases u rule: link_keys_of_cases)
    case zero
    with assms PDict show ?thesis by (auto simp: parse_item_entry_def)
  next
    case many
    with assms PDict show ?thesis
      by (auto simp: parse_item_entry_def Let_def split: if_splits)
  next
    case onefile
    with assms PDict show ?thesis
      by (auto simp: parse_item_entry_def Let_def split: option.splits)
  next
    case oneglob
    with assms PDict show ?thesis
      by (auto simp: parse_item_entry_def Let_def key_defs split: option.splits)
  next
    case oneurl
    with assms PDict show ?thesis
      by (auto simp: parse_item_entry_def Let_def url_fails_def key_defs split: option.splits)
  qed
qed (use assms in \<open>auto simp: parse_item_entry_def\<close>)

lemma parse_items_error:
  "parse_items A loc i xs = Inl e \<Longrightarrow>
     (\<exists>m. e = MalformedError m) \<or> (e = TypeError ''UrlItem'' \<and> (\<exists>x \<in> set xs. url_fails x))"
proof (induction xs arbitrary: i)
  case Nil
  then show ?case by simp
next
  case (Cons x xs)
  show ?case
  proof (cases "parse_item_entry A (loc @ ''/'' @ show_nat i) x")
    case (Inl e')
    with Cons.prems have "e' = e" by simp
    with parse_item_entry_error[OF Inl] show ?thesis by auto
  next
    case (Inr it)
    with Cons.prems have "parse_items A loc (Suc i) xs = Inl e" by (auto split: sum.splits)
    from Cons.IH[OF this] show ?thesis by auto
  qed
qed

lemma parse_toctree_unrecognized_error:
  assumes "k \<in> fst ` set dd" and "k \<notin> set TOCTREE_OPTIONS"
  shows "\<exists>e. parse_toctree A (PDict dd) loc td = Inl e
           \<and> ((\<exists>m. e = MalformedError m)
              \<or> (e = TypeError ''UrlItem''
                 \<and> (\<exists>g v xs x. td = PDict g \<and> map_of g DEFAULT_ITEMS_KEY = Some v
                       \<and> seq_elems v = Some xs \<and> x \<in> set xs \<and> url_fails x)))"
proof (cases "parse_toctree A (PDict dd) loc td")
  case (Inr t)
  with parse_toctree_unrecognized_default[OF assms] show ?thesis by blast
next
  case (Inl e)
  show ?thesis
  proof (cases td)
    case (PDict g)
    show ?thesis
    proof (cases "map_of g DEFAULT_ITEMS_KEY")
      case None
      with Inl PDict show ?thesis by (auto simp: parse_toctree_def)
    next
      case (Some v)
      show ?thesis
      proof (cases "seq_elems v")
        case None
        with Inl PDict Some show ?thesis by (auto simp: parse_toctree_def)
      next
        case xs: (Some xs)
        show ?thesis
        proof (cases xs)
          case Nil
          with Inl PDict Some xs show ?thesis by (auto simp: parse_toctree_def)
        next
          case (Cons y ys)
          show ?thesis
          proof (cases "parse_items A loc 0 xs")
            case il: (Inl e')
            with Inl PDict Some xs Cons have "e' = e" by (simp add: parse_toctree_def)
            with parse_items_error[OF il] Inl PDict Some xs show ?thesis by blast
          next
            case ir: (Inr its)
            with Inl PDict Some xs Cons show ?thesis
              by (auto simp: parse_toctree_def merge_defaults_def split: option.splits if_splits)
          qed
        qed
      qed
    qed
  qed (use Inl in \<open>auto simp: parse_toctree_def\<close>)
qed

lemma subtrees_data_of_error:
  assumes "subtrees_data_of data path = Inl e"
  shows "(\<exists>m. e = MalformedError m)
         \<or> (e = TypeError ''object is not a mapping'' \<and> has_key data DEFAULT_ITEMS_KEY
            \<and> \<not> has_key data DEFAULT_SUBTREES_KEY
            \<and> (\<exists>v. map_of data ''options'' = Some v \<and> (\<forall>opts. v \<noteq> PDict opts)))"
  using assms
  by (auto simp: subtrees_data_of_def split: if_splits option.splits pyval.splits list.splits)

subsection \<open>The documents of a parsed site map and the mappings they come from\<close>

lemma set_update_subset: "set (AList.update k v al) \<subseteq> insert (k, v) (set al)"
  by (induction al) auto

lemma parse_docs_list_sources:
  "parse_docs_list A ds sm df path = Inr sm' \<Longrightarrow> (n, doc) \<in> set (docs sm') \<Longrightarrow>
     (n, doc) \<in> set (docs sm)
     \<or> (\<exists>e rest smx px name cds. walk A df ds sm path (e # rest) smx px
           \<and> map_of e FILE_KEY = Some name \<and> sm_contains smx name = Inr False
           \<and> parse_doc_item A e df (px @ py_str A name @ ''/'') FILE_KEY = Inr (doc, cds))"
proof (induction A ds sm df path arbitrary: sm' rule: parse_docs_list.induct)
  case (1 A sm defaults path)
  then show ?case by (simp add: parse_docs_list.simps)
next
  case (2 A doc_data rest sm defaults path)
  from 2(3) obtain name where name: "map_of doc_data FILE_KEY = Some name"
    by (auto simp: parse_docs_list.simps split: option.splits)
  from 2(3) name have c: "sm_contains sm name = Inr False"
    by (auto simp: parse_docs_list.simps split: sum.splits bool.splits)
  let ?cp = "path @ py_str A name @ ''/''"
  from 2(3) name c obtain child ds' where
    p: "parse_doc_item A doc_data defaults ?cp FILE_KEY = Inr (child, ds')"
    by (auto simp: parse_docs_list.simps Let_def split: sum.splits)
  from 2(3) name c p obtain sm1 where
    r1: "parse_docs_list A ds' (sm_setitem sm (docname child) child) defaults ?cp = Inr sm1"
    and r2: "parse_docs_list A rest sm1 defaults path = Inr sm'"
    by (auto simp: parse_docs_list.simps Let_def split: sum.splits)
  let ?src = "\<lambda>ds sm path. \<exists>e rest smx px name cds. walk A defaults ds sm path (e # rest) smx px
           \<and> map_of e FILE_KEY = Some name \<and> sm_contains smx name = Inr False
           \<and> parse_doc_item A e defaults (px @ py_str A name @ ''/'') FILE_KEY = Inr (doc, cds)"
  from 2(2)[OF name c refl refl p refl r1 r2 2(4)]
  consider (in1) "(n, doc) \<in> set (docs sm1)" | (src2) "?src rest sm1 path" by blast
  then show ?case
  proof cases
    case src2
    then obtain e rest' smx px name' cds where
      w: "walk A defaults rest sm1 path (e # rest') smx px"
      and o: "map_of e FILE_KEY = Some name'" "sm_contains smx name' = Inr False"
        "parse_doc_item A e defaults (px @ py_str A name' @ ''/'') FILE_KEY = Inr (doc, cds)"
      by blast
    from walk_rest[OF name c p r1 w] o show ?thesis by blast
  next
    case in1
    from 2(1)[OF name c refl refl p refl r1 in1]
    consider (in0) "(n, doc) \<in> set (docs (sm_setitem sm (docname child) child))"
      | (src1) "?src ds' (sm_setitem sm (docname child) child) ?cp" by blast
    then show ?thesis
    proof cases
      case src1
      then obtain e rest' smx px name' cds where
        w: "walk A defaults ds' (sm_setitem sm (docname child) child) ?cp (e # rest') smx px"
        and o: "map_of e FILE_KEY = Some name'" "sm_contains smx name' = Inr False"
          "parse_doc_item A e defaults (px @ py_str A name' @ ''/'') FILE_KEY = Inr (doc, cds)"
        by blast
      from walk_child[OF name c p w] o show ?thesis by blast
    next
      case in0
      with set_update_subset[of "docname child" child "docs sm"]
      consider "(n, doc) = (docname child, child)" | "(n, doc) \<in> set (docs sm)"
        by (auto simp: sm_setitem_def)
      then show ?thesis
      proof cases
        case 1
        with name c p walk_here[of A defaults "doc_data # rest" sm path] show ?thesis by blast
      next
        case 2
        then show ?thesis by simp
      qed
    qed
  qed
qed

lemma parse_toc_data_sources:
  assumes "parse_toc_data A (PDict d) = Inr sm" and "doc = root sm \<or> sm_lookup sm n = Some doc"
  shows "\<exists>data path fk ds. parses_doc A d data path fk
           \<and> parse_doc_item A data (top_defaults d) path fk = Inr (doc, ds)"
proof -
  from assms(1) obtain rdoc rds where
    p: "parse_doc_item A d (top_defaults d) ''/'' ''root'' = Inr (rdoc, rds)"
    and r: "parse_docs_list A rds (SiteMap_new rdoc (dict_get d ''meta'')) (top_defaults d) ''/''
              = Inr sm"
    by (auto simp: parse_toc_data_unfold split: sum.splits)
  have rootsrc: "parses_doc A d d ''/'' ''root''" by (simp add: parses_doc_def)
  from parse_docs_list_keeps[OF r] have rt: "root sm = rdoc" by (simp add: SiteMap_new_def)
  from assms(2) consider (root) "doc = rdoc" | (reg) "(n, doc) \<in> set (docs sm)"
    using rt by (auto simp: sm_lookup_def dest: map_of_SomeD)
  then show ?thesis
  proof cases
    case root
    with p rootsrc show ?thesis by blast
  next
    case reg
    from parse_docs_list_sources[OF r reg]
    consider (first) "doc = rdoc"
      | (src) e rest smx px name cds where
          "walk A (top_defaults d) rds (SiteMap_new rdoc (dict_get d ''meta'')) ''/'' (e # rest) smx px"
          "map_of e FILE_KEY = Some name" "sm_contains smx name = Inr False"
          "parse_doc_item A e (top_defaults d) (px @ py_str A name @ ''/'') FILE_KEY = Inr (doc, cds)"
      by (auto simp: SiteMap_new_def)
    then show ?thesis
    proof cases
      case first
      with p rootsrc show ?thesis by blast
    next
      case src
      from src(1) p have "walk_reaches A d (e # rest) smx px"
        by (auto simp: walk_reaches_def)
      with src(2,3) have "parses_doc A d e (px @ py_str A name @ ''/'') FILE_KEY"
        by (auto simp: parses_doc_def)
      with src(4) show ?thesis by blast
    qed
  qed
qed

lemma parse_toctrees_nth:
  "parse_toctrees A df path i sd = Inr ts \<Longrightarrow>
     length ts = length sd
     \<and> (\<forall>j < length sd. parse_toctree A df (path @ show_nat (i + j)) (sd ! j) = Inr (ts ! j)
          \<and> (\<exists>ts'. parse_toctrees A df path i (take j sd) = Inr ts'))"
proof (induction sd arbitrary: i ts)
  case Nil
  then show ?case by simp
next
  case (Cons td sd)
  from Cons.prems obtain t ts' where t: "parse_toctree A df (path @ show_nat i) td = Inr t"
    and ts': "parse_toctrees A df path (Suc i) sd = Inr ts'" and e: "ts = t # ts'"
    by (auto split: sum.splits)
  note ih = Cons.IH[OF ts']
  show ?case
  proof (intro conjI allI impI)
    show "length ts = length (td # sd)" using ih e by simp
  next
    fix j assume j: "j < length (td # sd)"
    show "parse_toctree A df (path @ show_nat (i + j)) ((td # sd) ! j) = Inr (ts ! j)"
      using ih t e j by (cases j) auto
  next
    fix j assume j: "j < length (td # sd)"
    show "\<exists>ts'. parse_toctrees A df path i (take j (td # sd)) = Inr ts'"
      using ih t e j by (cases j) auto
  qed
qed

lemma option_chain_parse_toctree:
  assumes "parse_toctree A (PDict dd) loc (PDict g) = Inr t" and "k \<in> set TOCTREE_OPTIONS"
  shows "getattr t k = option_chain A g dd k"
proof -
  from assms(1) obtain its kw where
    kw: "merge_defaults (PDict dd) (own_keywords g) = Inr (kw, False)"
    and t: "TocTree_new A its kw = Some t"
    by (elim parse_toctree_InrD) auto
  from kw have kw': "kw = fold add_default dd (own_keywords g)"
    by (simp add: merge_defaults_def)
  show ?thesis
    unfolding getattr_TocTree_new[OF t assms(2)]
    using assms(2) by (simp add: kw_value_def kw' map_of_fold_defaults map_of_own_keywords
        option_chain_def split: option.splits)
qed

lemma parse_docs_list_head:
  assumes "parse_docs_list A (e # rest) sm df path = Inr sm'"
  obtains name child cds sm1 where "map_of e FILE_KEY = Some name"
    "sm_contains sm name = Inr False"
    "parse_doc_item A e df (path @ py_str A name @ ''/'') FILE_KEY = Inr (child, cds)"
    "parse_docs_list A cds (sm_setitem sm (docname child) child) df
       (path @ py_str A name @ ''/'') = Inr sm1"
    "parse_docs_list A rest sm1 df path = Inr sm'"
proof -
  from assms obtain name where name: "map_of e FILE_KEY = Some name"
    by (auto simp: parse_docs_list.simps split: option.splits)
  from assms name have c: "sm_contains sm name = Inr False"
    by (auto simp: parse_docs_list.simps split: sum.splits bool.splits)
  let ?cp = "path @ py_str A name @ ''/''"
  from assms name c obtain child cds where
    p: "parse_doc_item A e df ?cp FILE_KEY = Inr (child, cds)"
    by (auto simp: parse_docs_list.simps Let_def split: sum.splits)
  from assms name c p obtain sm1 where
    "parse_docs_list A cds (sm_setitem sm (docname child) child) df ?cp = Inr sm1"
    "parse_docs_list A rest sm1 df path = Inr sm'"
    by (auto simp: parse_docs_list.simps Let_def split: sum.splits)
  with name c p that show thesis by blast
qed

lemma walk_registers:
  "walk A df ds sm path ds' smx px \<Longrightarrow> ds' = e # rest \<Longrightarrow>
   parse_docs_list A ds sm df path = Inr sm' \<Longrightarrow> map_of e FILE_KEY = Some name \<Longrightarrow>
     \<exists>doc cds. parse_doc_item A e df (px @ py_str A name @ ''/'') FILE_KEY = Inr (doc, cds)
        \<and> sm_lookup sm' (docname doc) = Some doc"
proof (induction arbitrary: sm' rule: walk.induct)
  case (walk_here ds sm path)
  from walk_here(2)[unfolded walk_here(1)] obtain name' child cds sm1 where
    n: "map_of e FILE_KEY = Some name'"
    and p: "parse_doc_item A e df (path @ py_str A name' @ ''/'') FILE_KEY = Inr (child, cds)"
    and r1: "parse_docs_list A cds (sm_setitem sm (docname child) child) df
               (path @ py_str A name' @ ''/'') = Inr sm1"
    and r2: "parse_docs_list A rest sm1 df path = Inr sm'"
    by (elim parse_docs_list_head)
  from n walk_here(3) have nn: "name' = name" by simp
  have "sm_lookup (sm_setitem sm (docname child) child) (docname child) = Some child"
    by (simp add: sm_lookup_setitem)
  with parse_docs_list_keeps[OF r1] have "sm_lookup sm1 (docname child) = Some child" by auto
  with parse_docs_list_keeps[OF r2] have "sm_lookup sm' (docname child) = Some child" by auto
  with p nn show ?case by blast
next
  case (walk_child doc_data name0 sm path child_item child_docs_list ds' smx px rest0)
  from walk_child(7) obtain name' child cds sm1 where
    n: "map_of doc_data FILE_KEY = Some name'"
    and p: "parse_doc_item A doc_data df (path @ py_str A name' @ ''/'') FILE_KEY = Inr (child, cds)"
    and r1: "parse_docs_list A cds (sm_setitem sm (docname child) child) df
               (path @ py_str A name' @ ''/'') = Inr sm1"
    and r2: "parse_docs_list A rest0 sm1 df path = Inr sm'"
    by (elim parse_docs_list_head)
  from n walk_child(1) have nn: "name' = name0" by simp
  from p nn walk_child(3) have cc: "child = child_item" "cds = child_docs_list" by auto
  from walk_child(5)[OF walk_child(6) r1[unfolded nn cc] walk_child(8)] obtain doc cds' where
    d: "parse_doc_item A e df (px @ py_str A name @ ''/'') FILE_KEY = Inr (doc, cds')"
    and l: "sm_lookup sm1 (docname doc) = Some doc" by blast
  from parse_docs_list_keeps[OF r2] l have "sm_lookup sm' (docname doc) = Some doc" by auto
  with d show ?case by blast
next
  case (walk_rest doc_data name0 sm path child_item child_docs_list sm1 rest0 ds' smx px)
  from walk_rest(8) obtain name' child cds sm1' where
    n: "map_of doc_data FILE_KEY = Some name'"
    and p: "parse_doc_item A doc_data df (path @ py_str A name' @ ''/'') FILE_KEY = Inr (child, cds)"
    and r1: "parse_docs_list A cds (sm_setitem sm (docname child) child) df
               (path @ py_str A name' @ ''/'') = Inr sm1'"
    and r2: "parse_docs_list A rest0 sm1' df path = Inr sm'"
    by (elim parse_docs_list_head)
  from n walk_rest(1) have nn: "name' = name0" by simp
  from p nn walk_rest(3) have cc: "child = child_item" "cds = child_docs_list" by auto
  from r1 nn cc walk_rest(4) have "sm1' = sm1" by simp
  with r2 have "parse_docs_list A rest0 sm1 df path = Inr sm'" by simp
  from walk_rest(6)[OF walk_rest(7) this walk_rest(9)] show ?case .
qed

lemma parses_doc_registered:
  assumes "parse_toc_data A (PDict d) = Inr sm" and "parses_doc A d data path fk"
  shows "\<exists>doc cds. parse_doc_item A data (top_defaults d) path fk = Inr (doc, cds)
           \<and> sm_lookup sm (docname doc) = Some doc"
proof -
  from assms(1) obtain rdoc rds where
    p: "parse_doc_item A d (top_defaults d) ''/'' ''root'' = Inr (rdoc, rds)"
    and r: "parse_docs_list A rds (SiteMap_new rdoc (dict_get d ''meta'')) (top_defaults d) ''/''
              = Inr sm"
    by (auto simp: parse_toc_data_unfold split: sum.splits)
  from assms(2) show ?thesis unfolding parses_doc_def
  proof (elim disjE exE conjE)
    assume e: "data = d" "path = ''/''" "fk = ''root''"
    have "sm_lookup (SiteMap_new rdoc (dict_get d ''meta'')) (docname rdoc) = Some rdoc"
      by (simp add: sm_lookup_def SiteMap_new_def)
    with parse_docs_list_keeps[OF r] have "sm_lookup sm (docname rdoc) = Some rdoc" by auto
    with p e show ?thesis by blast
  next
    fix rest smx px name
    assume w: "walk_reaches A d (data # rest) smx px" and n: "map_of data FILE_KEY = Some name"
      and e: "path = px @ py_str A name @ ''/''" "fk = FILE_KEY"
    from w p have "walk A (top_defaults d) rds (SiteMap_new rdoc (dict_get d ''meta'')) ''/''
                     (data # rest) smx px"
      by (auto simp: walk_reaches_def)
    from walk_registers[OF this refl r n] e show ?thesis by simp
  qed
qed

subsection \<open>Where the duplicate error comes from\<close>

lemma parse_item_entry_no_duplicate_error:
  "parse_item_entry A loc x = Inl e \<Longrightarrow> \<not> is_duplicate_error e"
  using parse_item_entry_error[of A loc x e]
  by (cases x)
     (auto simp: parse_item_entry_def Let_def is_duplicate_error_def
        split: if_splits option.splits prod.splits)

lemma parse_items_no_duplicate_error:
  "parse_items A loc i xs = Inl e \<Longrightarrow> \<not> is_duplicate_error e"
proof (induction xs arbitrary: i)
  case Nil
  then show ?case by simp
next
  case (Cons x xs)
  then show ?case
    by (auto split: sum.splits dest: parse_item_entry_no_duplicate_error)
qed

lemma defaults_list_loop_no_duplicate_error:
  "defaults_list_loop n es kw bad = Inl e \<Longrightarrow> \<not> is_duplicate_error e"
  by (induction n es kw bad rule: defaults_list_loop.induct)
     (auto simp: is_duplicate_error_def split: if_splits)

lemma merge_defaults_no_duplicate_error:
  "merge_defaults df kw = Inl e \<Longrightarrow> \<not> is_duplicate_error e"
  by (cases df)
     (auto simp: merge_defaults_def is_duplicate_error_def split: if_splits
        dest: defaults_list_loop_no_duplicate_error)

lemma parse_toctree_no_duplicate_error:
  assumes "parse_toctree A df loc td = Inl e"
  shows "\<not> is_duplicate_error e"
proof (cases td)
  case (PDict g)
  show ?thesis
  proof (cases "map_of g DEFAULT_ITEMS_KEY")
    case None
    with assms PDict show ?thesis by (auto simp: parse_toctree_def is_duplicate_error_def)
  next
    case (Some v)
    show ?thesis
    proof (cases "seq_elems v")
      case None
      with assms PDict Some show ?thesis by (auto simp: parse_toctree_def is_duplicate_error_def)
    next
      case xs: (Some xs)
      show ?thesis
      proof (cases xs)
        case Nil
        with assms PDict Some xs show ?thesis
          by (auto simp: parse_toctree_def is_duplicate_error_def)
      next
        case (Cons y ys)
        show ?thesis
        proof (cases "parse_items A loc 0 xs")
          case (Inl e')
          with assms PDict Some xs Cons have "e' = e" by (simp add: parse_toctree_def)
          with parse_items_no_duplicate_error[OF Inl] show ?thesis by simp
        next
          case (Inr its)
          show ?thesis
          proof (cases "merge_defaults df (own_keywords g)")
            case il: (Inl e')
            with assms PDict Some xs Cons Inr have "e' = e" by (simp add: parse_toctree_def)
            with merge_defaults_no_duplicate_error[OF il] show ?thesis by simp
          next
            case ir: (Inr r)
            with assms PDict Some xs Cons Inr show ?thesis
              by (auto simp: parse_toctree_def is_duplicate_error_def
                  split: option.splits if_splits prod.splits)
          qed
        qed
      qed
    qed
  qed
qed (use assms in \<open>auto simp: parse_toctree_def is_duplicate_error_def\<close>)

lemma parse_toctrees_no_duplicate_error:
  "parse_toctrees A df path i tds = Inl e \<Longrightarrow> \<not> is_duplicate_error e"
proof (induction tds arbitrary: i)
  case Nil
  then show ?case by simp
next
  case (Cons td tds)
  then show ?case
    by (auto split: sum.splits dest: parse_toctree_no_duplicate_error)
qed

lemma parse_doc_item_no_duplicate_error:
  assumes "parse_doc_item A data df path fk = Inl e"
  shows "\<not> is_duplicate_error e"
proof (cases "has_key data fk")
  case False
  with assms show ?thesis by (auto simp: parse_doc_item_def is_duplicate_error_def)
next
  case True
  show ?thesis
  proof (cases "subtrees_data_of data path")
    case (Inl e')
    with assms True have "e' = e" by (simp add: parse_doc_item_def)
    with Inl show ?thesis
      by (auto simp: subtrees_data_of_def is_duplicate_error_def
          split: if_splits option.splits pyval.splits list.splits)
  next
    case (Inr sd)
    show ?thesis
    proof (cases "parse_toctrees A df path 0 sd")
      case il: (Inl e')
      with assms True Inr have "e' = e" by (simp add: parse_doc_item_def)
      with parse_toctrees_no_duplicate_error[OF il] show ?thesis by simp
    next
      case ir: (Inr ts)
      with assms True Inr show ?thesis
        by (auto simp: parse_doc_item_def is_duplicate_error_def split: option.splits)
    qed
  qed
qed

lemma parse_docs_list_duplicate_source:
  "parse_docs_list A ds sm df path = Inl (MalformedError (UsedMultipleTimes n)) \<Longrightarrow>
     \<exists>e rest smx px. walk A df ds sm path (e # rest) smx px
        \<and> map_of e FILE_KEY = Some (PStr n) \<and> sm_lookup smx n \<noteq> None"
proof (induction A ds sm df path rule: parse_docs_list.induct)
  case (1 A sm defaults path)
  then show ?case by (simp add: parse_docs_list.simps)
next
  case (2 A doc_data rest sm defaults path)
  let ?dup = "Inl (MalformedError (UsedMultipleTimes n)) :: error + SiteMap"
  from 2(3) obtain name where name: "map_of doc_data FILE_KEY = Some name"
    by (auto simp: parse_docs_list.simps split: option.splits)
  from 2(3) name obtain b where c: "sm_contains sm name = Inr b"
    by (cases "sm_contains sm name")
       (auto simp: parse_docs_list.simps sm_contains_def split: pyval.splits)
  show ?case
  proof (cases b)
    case True
    with c obtain s where s: "name = PStr s" "sm_lookup sm s \<noteq> None"
      by (auto simp: sm_contains_def split: pyval.splits)
    with 2(3) name c True have "s = n" by (simp add: parse_docs_list.simps py_str_def)
    with s name walk_here[of A defaults "doc_data # rest" sm path] show ?thesis by blast
  next
    case False
    let ?cp = "path @ py_str A name @ ''/''"
    from c False have c': "sm_contains sm name = Inr False" by simp
    show ?thesis
    proof (cases "parse_doc_item A doc_data defaults ?cp FILE_KEY")
      case (Inl e)
      with 2(3) name c' have "e = MalformedError (UsedMultipleTimes n)"
        by (simp add: parse_docs_list.simps)
      with parse_doc_item_no_duplicate_error[OF Inl] show ?thesis
        by (simp add: is_duplicate_error_def)
    next
      case (Inr r)
      obtain child cds where r: "r = (child, cds)" by (cases r)
      note p = Inr[unfolded r]
      show ?thesis
      proof (cases "parse_docs_list A cds (sm_setitem sm (docname child) child) defaults ?cp")
        case il: (Inl e)
        with 2(3) name c' p have "e = MalformedError (UsedMultipleTimes n)"
          by (simp add: parse_docs_list.simps)
        with il 2(1)[OF name c' refl refl p refl] obtain e' rest' smx px where
          "walk A defaults cds (sm_setitem sm (docname child) child) ?cp (e' # rest') smx px"
          "map_of e' FILE_KEY = Some (PStr n)" "sm_lookup smx n \<noteq> None"
          by blast
        with walk_child[OF name c' p this(1)] show ?thesis by blast
      next
        case ir: (Inr sm1)
        with 2(3) name c' p have "parse_docs_list A rest sm1 defaults path = ?dup"
          by (simp add: parse_docs_list.simps)
        from 2(2)[OF name c' refl refl p refl ir this] obtain e' rest' smx px where
          "walk A defaults rest sm1 path (e' # rest') smx px"
          "map_of e' FILE_KEY = Some (PStr n)" "sm_lookup smx n \<noteq> None"
          by blast
        with walk_rest[OF name c' p ir this(1)] show ?thesis by blast
      qed
    qed
  qed
qed

lemma parse_toc_data_duplicate_source:
  assumes "parse_toc_data A (PDict d) = Inl (MalformedError (UsedMultipleTimes n))"
  shows "\<exists>doc_data rest site_map path. walk_reaches A d (doc_data # rest) site_map path
           \<and> map_of doc_data FILE_KEY = Some (PStr n) \<and> sm_lookup site_map n \<noteq> None"
proof (cases "parse_doc_item A d (top_defaults d) ''/'' ''root''")
  case (Inl e)
  with assms have "e = MalformedError (UsedMultipleTimes n)"
    by (simp add: parse_toc_data_unfold)
  with parse_doc_item_no_duplicate_error[OF Inl] show ?thesis
    by (simp add: is_duplicate_error_def)
next
  case (Inr r)
  obtain rdoc rds where r: "r = (rdoc, rds)" by (cases r)
  from assms Inr r
  have "parse_docs_list A rds (SiteMap_new rdoc (dict_get d ''meta'')) (top_defaults d) ''/''
          = Inl (MalformedError (UsedMultipleTimes n))"
    by (simp add: parse_toc_data_unfold)
  from parse_docs_list_duplicate_source[OF this] Inr r show ?thesis
    by (auto simp: walk_reaches_def)
qed

lemma walk_duplicate_error:
  assumes "walk_reaches A d (doc_data # rest) site_map path"
    and "map_of doc_data FILE_KEY = Some (PStr name)"
  shows "(sm_lookup site_map name \<noteq> None \<longrightarrow>
            parse_toc_data A (PDict d) = Inl (MalformedError (UsedMultipleTimes name)))
         \<and> (map_of d ''root'' = Some (PStr name) \<longrightarrow> sm_lookup site_map name \<noteq> None)"
proof -
  have dup: "parse_toc_data A (PDict d) = Inl (MalformedError (UsedMultipleTimes name))"
    if "sm_lookup site_map name \<noteq> None"
  proof -
    from that assms(2)
    have "parse_docs_list A (doc_data # rest) site_map (top_defaults d) path
            = Inl (MalformedError (UsedMultipleTimes name))"
      by (simp add: parse_docs_list.simps sm_contains_def py_str_def)
    from walk_reaches_error[OF assms(1) this] show ?thesis .
  qed
  have "sm_lookup site_map name \<noteq> None" if r: "map_of d ''root'' = Some (PStr name)"
  proof -
    from assms(1) obtain doc_item docs_list where
      p: "parse_doc_item A d (top_defaults d) ''/'' ''root'' = Inr (doc_item, docs_list)"
      and w: "walk A (top_defaults d) docs_list (SiteMap_new doc_item (dict_get d ''meta'')) ''/''
                (doc_data # rest) site_map path"
      by (auto simp: walk_reaches_def)
    from p r have "docname doc_item = name"
      by (auto simp: parse_doc_item_def Document_new_def dict_get_def
          split: if_splits sum.splits option.splits pyval.splits)
    then have "sm_lookup (SiteMap_new doc_item (dict_get d ''meta'')) name \<noteq> None"
      by (simp add: sm_lookup_def SiteMap_new_def)
    from walk_keeps_keys[OF w this] show ?thesis .
  qed
  with dup show ?thesis by blast
qed

subsection \<open>Rules for the instances\<close>

lemma walk_reachesI:
  "parse_doc_item A d (top_defaults d) ''/'' ''root'' = Inr (doc_item, docs_list) \<Longrightarrow>
   walk A (top_defaults d) docs_list (SiteMap_new doc_item (dict_get d ''meta'')) ''/'' ds sm path \<Longrightarrow>
     walk_reaches A d ds sm path"
  by (auto simp: walk_reaches_def)

lemma parses_docI:
  "walk_reaches A d (data # rest) sm p \<Longrightarrow> map_of data FILE_KEY = Some name \<Longrightarrow>
   sm_contains sm name = Inr False \<Longrightarrow>
     parses_doc A d data (p @ py_str A name @ ''/'') FILE_KEY"
  by (auto simp: parses_doc_def)

lemma parses_doc_root: "parses_doc A d d ''/'' ''root''"
  by (simp add: parses_doc_def)

lemma parses_groupingI:
  "has_key data fk \<Longrightarrow> subtrees_data_of data path = Inr sd \<Longrightarrow> i < length sd \<Longrightarrow>
   parse_toctrees A df path 0 (take i sd) = Inr ts \<Longrightarrow>
     parses_grouping A df data path fk i (sd ! i)"
  by (auto simp: parses_grouping_def)


lemmas inst_defs = plain_doc_def default_toctree_def api0_def top_defaults_def c1_toc_def

subsection \<open>The serializer and the documents it inlines\<close>

inductive_cases inlined_NilE: "inlined sm [] ns"

lemma inlined_append:
  "inlined sm a n1 \<Longrightarrow> inlined sm b n2 \<Longrightarrow> inlined sm (a @ b) (n1 @ n2)"
proof (induction rule: inlined.induct)
  case inlined_Nil
  then show ?case by simp
next
  case (inlined_File name doc ns rest ns')
  from inlined.inlined_File[OF inlined_File(1,2) inlined_File(5)[OF inlined_File(6)]]
  show ?case by simp
next
  case (inlined_Dangling name rest ns)
  then show ?case by (auto intro: inlined.inlined_Dangling)
next
  case (inlined_Glob rest ns pat)
  then show ?case by (auto intro: inlined.inlined_Glob)
next
  case (inlined_Url rest ns url ttl)
  then show ?case by (auto intro: inlined.inlined_Url)
qed

lemma serializer_inlined:
  "docitem_to_dict A sm skip fk P doc = Inr r \<Longrightarrow>
     \<exists>ns. inlined sm (concat (map items (subtrees doc))) ns"
  "serialize_item A sm skip P it = Inr r' \<Longrightarrow> \<exists>ns. inlined sm [it] ns"
  "items_to_list A sm skip P its = Inr r'' \<Longrightarrow> \<exists>ns. inlined sm its ns"
  "subtrees_to_list A sm skip P ts = Inr r''' \<Longrightarrow> \<exists>ns. inlined sm (concat (map items ts)) ns"
proof (induction A sm skip fk P doc and A sm skip P it and A sm skip P its and A sm skip P ts
    arbitrary: r and r' and r'' and r'''
    rule: docitem_to_dict_serialize_item_items_to_list_subtrees_to_list.induct)
  case (1 A sm skip fk P doc)
  show ?case
  proof (cases "subtrees doc = []")
    case True
    then show ?thesis by (auto intro: inlined_Nil)
  next
    case False
    with 1(2) obtain r2 where "docname doc \<notin> P"
      "subtrees_to_list A sm skip (insert (docname doc) P) (subtrees doc) = Inr r2"
      by (auto simp: docitem_to_dict.simps[of A sm skip fk P doc] split: if_splits sum.splits)
    from 1(1)[OF this(1) False this(2)] show ?thesis .
  qed
next
  case (2 A sm skip P name)
  show ?case
  proof (cases "sm_lookup sm name")
    case None
    from inlined_Dangling[OF None inlined_Nil] show ?thesis by blast
  next
    case (Some doc)
    with 2(2) obtain r2 where "docitem_to_dict A sm skip FILE_KEY P doc = Inr r2"
      by (auto split: sum.splits)
    from 2(1)[OF Some this] obtain ns where "inlined sm (concat (map items (subtrees doc))) ns"
      by blast
    from inlined_File[OF Some this inlined_Nil] show ?thesis by blast
  qed
next
  case (3 A sm skip P pat)
  from inlined_Glob[OF inlined_Nil] show ?case by blast
next
  case (4 A sm skip P url ttl)
  from inlined_Url[OF inlined_Nil] show ?case by blast
next
  case (5 A sm skip P)
  show ?case by (auto intro: inlined_Nil)
next
  case (6 A sm skip P item rest)
  from 6(3) obtain x Q r2 where a: "serialize_item A sm skip P item = Inr (x, Q)"
    and b: "items_to_list A sm skip Q rest = Inr r2"
    by (auto split: sum.splits)
  from 6(1)[OF a] 6(2)[OF a refl b] obtain n1 n2 where
    "inlined sm [item] n1" "inlined sm rest n2" by blast
  from inlined_append[OF this] show ?case by auto
next
  case (7 A sm skip P)
  show ?case by (auto intro: inlined_Nil)
next
  case (8 A sm skip P toctree rest)
  from 8(3) obtain xs Q r2 where a: "items_to_list A sm skip P (items toctree) = Inr (xs, Q)"
    and b: "subtrees_to_list A sm skip Q rest = Inr r2"
    by (auto split: sum.splits)
  from 8(1)[OF a] 8(2)[OF a refl b] obtain n1 n2 where
    "inlined sm (items toctree) n1" "inlined sm (concat (map items rest)) n2" by blast
  from inlined_append[OF this] show ?case by auto
qed

lemma subtrees_to_list_as_items:
  "map_sum id snd (subtrees_to_list A sm skip P ts)
     = map_sum id snd (items_to_list A sm skip P (concat (map items ts)))"
proof (induction ts arbitrary: P)
  case Nil
  show ?case by simp
next
  case (Cons t ts)
  show ?case
  proof (cases "items_to_list A sm skip P (items t)")
    case (Inl e)
    then show ?thesis by (simp add: items_to_list_append)
  next
    case (Inr r)
    obtain xs Q where r: "r = (xs, Q)" by (cases r)
    from Cons[of Q] Inr r show ?thesis
      by (cases "subtrees_to_list A sm skip Q ts";
          cases "items_to_list A sm skip Q (concat (map items ts))")
         (auto simp: items_to_list_append)
  qed
qed

lemma visits_once_append:
  "visits_once P (a @ b) \<longleftrightarrow> visits_once P a \<and> visits_once (P \<union> set a) b"
  by (auto simp: visits_once_def)

lemma visits_once_Cons:
  "visits_once P (n # ns) \<longleftrightarrow> n \<notin> P \<and> visits_once (insert n P) ns"
  by (auto simp: visits_once_def)

lemma docitem_by_items:
  assumes "\<And>P. (visits_once P ns \<longrightarrow>
              (\<exists>xs. items_to_list A sm skip P (concat (map items (subtrees doc)))
                      = Inr (xs, P \<union> set ns)))
           \<and> (\<not> visits_once P ns \<longrightarrow>
              (\<exists>n \<in> set ns. items_to_list A sm skip P (concat (map items (subtrees doc)))
                               = Inl (RecursionError n)))"
    and "inlined sm (concat (map items (subtrees doc))) ns"
  shows "(visits_once P (docname doc # ns) \<longrightarrow>
            (\<exists>d. docitem_to_dict A sm skip fk P doc = Inr (d, P \<union> set (docname doc # ns))))
         \<and> (\<not> visits_once P (docname doc # ns) \<longrightarrow>
            (\<exists>n \<in> set (docname doc # ns).
               docitem_to_dict A sm skip fk P doc = Inl (RecursionError n)))"
proof (cases "docname doc \<in> P")
  case True
  then show ?thesis
    by (simp add: docitem_to_dict.simps[of A sm skip fk P doc] visits_once_Cons)
next
  case False
  show ?thesis
  proof (cases "subtrees doc = []")
    case True
    with assms(2) have "ns = []" by (auto elim: inlined_NilE)
    with True False show ?thesis
      by (simp add: docitem_to_dict.simps[of A sm skip fk P doc] visits_once_def)
  next
    case ne: False
    let ?P = "insert (docname doc) P"
    note rel = subtrees_to_list_as_items[of A sm skip ?P "subtrees doc"]
    show ?thesis
    proof (cases "visits_once ?P ns")
      case True
      with assms(1)[of ?P] obtain xs where
        "items_to_list A sm skip ?P (concat (map items (subtrees doc))) = Inr (xs, ?P \<union> set ns)"
        by blast
      with rel obtain sub where
        "subtrees_to_list A sm skip ?P (subtrees doc) = Inr (sub, ?P \<union> set ns)"
        by (cases "subtrees_to_list A sm skip ?P (subtrees doc)") auto
      with False ne True show ?thesis
        by (simp add: docitem_to_dict.simps[of A sm skip fk P doc] visits_once_Cons)
    next
      case nv: False
      with assms(1)[of ?P] obtain n where n: "n \<in> set ns"
        "items_to_list A sm skip ?P (concat (map items (subtrees doc))) = Inl (RecursionError n)"
        by blast
      with rel have "subtrees_to_list A sm skip ?P (subtrees doc) = Inl (RecursionError n)"
        by (cases "subtrees_to_list A sm skip ?P (subtrees doc)") auto
      with False ne nv n(1) show ?thesis
        by (auto simp: docitem_to_dict.simps[of A sm skip fk P doc] visits_once_Cons)
    qed
  qed
qed

lemma inlined_items_result:
  "inlined sm its ns \<Longrightarrow>
     (visits_once P ns \<longrightarrow> (\<exists>xs. items_to_list A sm skip P its = Inr (xs, P \<union> set ns)))
     \<and> (\<not> visits_once P ns \<longrightarrow>
          (\<exists>n \<in> set ns. items_to_list A sm skip P its = Inl (RecursionError n)))"
proof (induction arbitrary: P rule: inlined.induct)
  case inlined_Nil
  show ?case by (simp add: visits_once_def)
next
  case (inlined_File name doc ns rest ns')
  note d = docitem_by_items[of ns A sm skip doc P FILE_KEY, OF inlined_File(4) inlined_File(2)]
  let ?Q = "P \<union> set (docname doc # ns)"
  note r = inlined_File(5)[of ?Q]
  have split: "visits_once P (docname doc # ns @ ns')
                 \<longleftrightarrow> visits_once P (docname doc # ns) \<and> visits_once ?Q ns'"
    using visits_once_append[of P "docname doc # ns" ns'] by simp
  show ?case
  proof (cases "visits_once P (docname doc # ns)")
    case False
    with d obtain n where "n \<in> set (docname doc # ns)"
      "docitem_to_dict A sm skip FILE_KEY P doc = Inl (RecursionError n)" by blast
    with False split inlined_File(1) show ?thesis by auto
  next
    case True
    with d obtain dd where dd: "docitem_to_dict A sm skip FILE_KEY P doc = Inr (dd, ?Q)" by blast
    show ?thesis
    proof (cases "visits_once ?Q ns'")
      case True
      with r obtain xs where "items_to_list A sm skip ?Q rest = Inr (xs, ?Q \<union> set ns')" by blast
      with dd True \<open>visits_once P (docname doc # ns)\<close> split inlined_File(1) show ?thesis
        by (auto simp: Un_assoc)
    next
      case False
      with r obtain n where "n \<in> set ns'"
        "items_to_list A sm skip ?Q rest = Inl (RecursionError n)" by blast
      with dd False split inlined_File(1) show ?thesis by auto
    qed
  qed
next
  case (inlined_Dangling name rest ns)
  from inlined_Dangling(3)[of P] inlined_Dangling(1) show ?case
    by (auto split: sum.splits)
next
  case (inlined_Glob rest ns pat)
  from inlined_Glob(2)[of P] show ?case by (auto split: sum.splits)
next
  case (inlined_Url rest ns url ttl)
  from inlined_Url(2)[of P] show ?case by (cases ttl) (auto split: sum.splits)
qed

lemma inlined_by_result:
  assumes "inlined_by sm doc ns"
  shows "(visits_once P ns \<longrightarrow> (\<exists>d. docitem_to_dict A sm skip fk P doc = Inr (d, P \<union> set ns)))
         \<and> (\<not> visits_once P ns \<longrightarrow>
              (\<exists>n \<in> set ns. docitem_to_dict A sm skip fk P doc = Inl (RecursionError n)))"
proof -
  from assms obtain ns' where ns: "ns = docname doc # ns'"
    and i: "inlined sm (concat (map items (subtrees doc))) ns'"
    by (cases ns) (auto simp: inlined_by_def)
  from docitem_by_items[of ns' A sm skip doc P fk, OF inlined_items_result[OF i] i]
  show ?thesis unfolding ns .
qed

lemma docitem_to_dict_inlined_by:
  assumes "docitem_to_dict A sm skip fk P doc = Inr (d, P')"
  shows "\<exists>ns. inlined_by sm doc ns \<and> visits_once P ns \<and> P' = P \<union> set ns"
proof -
  from serializer_inlined(1)[OF assms] obtain ns' where
    i: "inlined sm (concat (map items (subtrees doc))) ns'" by blast
  let ?ns = "docname doc # ns'"
  from i have b: "inlined_by sm doc ?ns" by (simp add: inlined_by_def)
  from inlined_by_result[OF b, of P A skip fk] assms
  have "visits_once P ?ns \<and> P' = P \<union> set ?ns" by (cases "visits_once P ?ns") auto
  with b show ?thesis by blast
qed




section \<open>Properties of the parser\<close>

text \<open>
  C2 (as amended). Parsing \<^verbatim>\<open>{root: "index", sections: [{file: "a"}]}\<close> yields a site map
  whose root has docname \<open>index\<close> and exactly one grouping with the single item
  \<open>FileItem a\<close>; the entry \<open>a\<close> is parsed as a document of its own and registered in the
  site map as a leaf (docname \<open>a\<close>, no title, no grouping).
\<close>

theorem C2_file_entry_registered:
  "parse_toc_data A c2_input = Inr (c2_site_map A)
   \<and> docname (root (c2_site_map A)) = ''index''
   \<and> map items (subtrees (root (c2_site_map A))) = [[FileItem ''a'']]
   \<and> sm_lookup (c2_site_map A) ''a'' = Some \<lparr> docname = ''a'', title = None, subtrees = [] \<rparr>"
  by (simp add: c2_input_def c2_site_map_def default_toctree_def parse_defs key_defs)

text \<open>
  C2 as stated says that \<open>a\<close> is not registered. On the instance \<open>api0\<close> the parse
  result has an entry for \<open>a\<close>.
\<close>

theorem C2_not_dangling_counterexample:
  "parse_toc_data api0 c2_input = Inr (c2_site_map api0)
   \<and> sm_lookup (c2_site_map api0) ''a'' \<noteq> None"
  by (simp add: c2_input_def c2_site_map_def default_toctree_def parse_defs key_defs)

text \<open>
  C3. When the walk of \<^verbatim>\<open>parse_toc_data\<close> comes to a file entry whose docname is already
  a key of the site map under construction, the parse of the whole input fails with
  \<open>MalformedError\<close> "document file used multiple times" for that docname, however deep in
  the nested calls the entry stands and whatever the entry and the entries after it
  contain: nothing of them is parsed. So it is when the entry repeats the docname of the
  root, which is a key from the start and stays one. The parse fails with this error for
  a docname in no other way.
\<close>

theorem C3_duplicate_docname_rejected:
  "(walk_reaches A d (doc_data # rest) site_map path
      \<and> map_of doc_data FILE_KEY = Some (PStr name) \<and> sm_lookup site_map name \<noteq> None \<longrightarrow>
    parse_toc_data A (PDict d) = Inl (MalformedError (UsedMultipleTimes name)))
   \<and> (walk_reaches A d (doc_data # rest) site_map path
      \<and> map_of doc_data FILE_KEY = Some (PStr name) \<and> map_of d ''root'' = Some (PStr name) \<longrightarrow>
    parse_toc_data A (PDict d) = Inl (MalformedError (UsedMultipleTimes name)))
   \<and> (parse_toc_data A (PDict d) = Inl (MalformedError (UsedMultipleTimes n)) \<longrightarrow>
    (\<exists>e es sm p. walk_reaches A d (e # es) sm p
        \<and> map_of e FILE_KEY = Some (PStr n) \<and> sm_lookup sm n \<noteq> None))"
  using walk_duplicate_error[of A d doc_data rest site_map path name]
    parse_toc_data_duplicate_source[of A d n]
  by blast

theorem C3_duplicate_docname_rejected_witness:
  "walk_reaches api0 c3_input [[(''file'', PStr ''c'')]] c3_state ''/b/''
   \<and> sm_lookup c3_state ''c'' \<noteq> None
   \<and> parse_toc_data api0 (PDict c3_input) = Inl (MalformedError (UsedMultipleTimes ''c''))
   \<and> walk_reaches api0 c3_root_input [[(''file'', PStr ''index'')]] c3_root_state ''/a/''
   \<and> map_of c3_root_input ''root'' = Some (PStr ''index'')
   \<and> parse_toc_data api0 (PDict c3_root_input)
       = Inl (MalformedError (UsedMultipleTimes ''index''))"
proof -
  let ?c = "[(''file'', PStr ''c'')]"
  let ?a = "[(''file'', PStr ''a''), (''sections'', PList [PDict ?c])]"
  let ?b = "[(''file'', PStr ''b''), (''sections'', PList [PDict ?c])]"
  let ?r = "plain_doc ''index'' [[FileItem ''a'', FileItem ''b'']]"
  let ?sm0 = "SiteMap_new ?r (dict_get c3_input ''meta'')"
  let ?sm1 = "\<lparr> root = ?r, meta = PNone,
       docs = [(''index'', ?r), (''a'', plain_doc ''a'' [[FileItem ''c'']]),
               (''c'', plain_doc ''c'' [])] \<rparr>"
  have p: "parse_doc_item api0 c3_input (top_defaults c3_input) ''/'' ''root'' = Inr (?r, [?a, ?b])"
    by (simp add: c3_input_def inst_defs parse_defs key_defs)
  have w2: "walk api0 (top_defaults c3_input) [?b] ?sm1 ''/'' [?c] c3_state ''/b/''"
    using walk_child[where A = api0 and defaults = "top_defaults c3_input" and doc_data = ?b
        and name = "PStr ''b''" and sm = ?sm1 and path = "''/''"
        and child_item = "plain_doc ''b'' [[FileItem ''c'']]" and child_docs_list = "[?c]"
        and rest = "[]" and ds' = "[?c]" and sm' = c3_state and path' = "''/b/''"]
      walk_here[of api0 "top_defaults c3_input" "[?c]" c3_state "''/b/''"]
    by (simp add: c3_input_def c3_state_def inst_defs parse_defs key_defs)
  have w1: "walk api0 (top_defaults c3_input) [?a, ?b] ?sm0 ''/'' [?c] c3_state ''/b/''"
    using walk_rest[where A = api0 and defaults = "top_defaults c3_input" and doc_data = ?a
        and name = "PStr ''a''" and sm = ?sm0 and path = "''/''"
        and child_item = "plain_doc ''a'' [[FileItem ''c'']]" and child_docs_list = "[?c]"
        and site_map' = ?sm1 and rest = "[?b]" and ds' = "[?c]" and sm' = c3_state and path' = "''/b/''"]
      w2
    by (simp add: c3_input_def inst_defs parse_defs key_defs)
  have r: "walk_reaches api0 c3_input [?c] c3_state ''/b/''"
    by (rule walk_reachesI[OF p w1])
  have f: "map_of ?c FILE_KEY = Some (PStr ''c'')" by (simp add: key_defs)
  have l: "sm_lookup c3_state ''c'' \<noteq> None" by (simp add: c3_state_def sm_lookup_def)
  let ?i = "[(''file'', PStr ''index'')]"
  let ?a' = "[(''file'', PStr ''a''), (''sections'', PList [PDict ?i])]"
  let ?r' = "plain_doc ''index'' [[FileItem ''a'']]"
  let ?sm0' = "SiteMap_new ?r' (dict_get c3_root_input ''meta'')"
  have p': "parse_doc_item api0 c3_root_input (top_defaults c3_root_input) ''/'' ''root''
              = Inr (?r', [?a'])"
    by (simp add: c3_root_input_def inst_defs parse_defs key_defs)
  have w': "walk api0 (top_defaults c3_root_input) [?a'] ?sm0' ''/'' [?i] c3_root_state ''/a/''"
    using walk_child[where A = api0 and defaults = "top_defaults c3_root_input" and doc_data = ?a'
        and name = "PStr ''a''" and sm = ?sm0' and path = "''/''"
        and child_item = "plain_doc ''a'' [[FileItem ''index'']]" and child_docs_list = "[?i]"
        and rest = "[]" and ds' = "[?i]" and sm' = c3_root_state and path' = "''/a/''"]
      walk_here[of api0 "top_defaults c3_root_input" "[?i]" c3_root_state "''/a/''"]
    by (simp add: c3_root_input_def c3_root_state_def inst_defs parse_defs key_defs)
  have r': "walk_reaches api0 c3_root_input [?i] c3_root_state ''/a/''"
    by (rule walk_reachesI[OF p' w'])
  have f': "map_of ?i FILE_KEY = Some (PStr ''index'')" by (simp add: key_defs)
  have m': "map_of c3_root_input ''root'' = Some (PStr ''index'')"
    by (simp add: c3_root_input_def)
  from C3_duplicate_docname_rejected[where A = api0 and d = c3_input and doc_data = ?c
      and rest = "[]" and site_map = c3_state and path = "''/b/''" and name = "''c''"] r f l
  have a: "parse_toc_data api0 (PDict c3_input) = Inl (MalformedError (UsedMultipleTimes ''c''))"
    by simp
  from C3_duplicate_docname_rejected[where A = api0 and d = c3_root_input and doc_data = ?i
      and rest = "[]" and site_map = c3_root_state and path = "''/a/''" and name = "''index''"]
    r' f' m'
  have b: "parse_toc_data api0 (PDict c3_root_input)
             = Inl (MalformedError (UsedMultipleTimes ''index''))"
    by simp
  from a b r l r' m' show ?thesis by simp
qed





text \<open>
  C5. Let an input parse, with the top-level defaults a mapping \<open>dd\<close> (empty when the key
  is absent). Every grouping that the parse comes to, in the root or in a nested document,
  is the grouping of the same index of the document that the site map has under the
  docname of its mapping, and every recognized option of it has the grouping's own value
  if the grouping has the key, else the value of \<open>dd\<close> if it has the key, else the
  built-in default; the grouping's keys outside the recognized set play no part (without
  them the grouping parses to the same result). And every document of the site map, the
  root too, is parsed in this way from a mapping of the input, grouping by grouping.
\<close>

theorem C5_option_resolution:
  assumes "parse_toc_data A (PDict d) = Inr sm" and "top_defaults d = PDict dd"
  shows "(parses_doc A d data path file_key
            \<and> parses_grouping A (PDict dd) data path file_key i (PDict g) \<longrightarrow>
          (\<exists>doc. dict_get data file_key = PStr (docname doc)
             \<and> sm_lookup sm (docname doc) = Some doc \<and> i < length (subtrees doc)
             \<and> (\<forall>k \<in> set TOCTREE_OPTIONS. getattr (subtrees doc ! i) k = option_chain A g dd k)
             \<and> parse_toctree A (PDict dd) (path @ show_nat i) (PDict (recognized_part g))
                 = Inr (subtrees doc ! i)))
         \<and> (doc' = root sm \<or> sm_lookup sm n = Some doc' \<longrightarrow>
          (\<exists>data' path' file_key' subtrees_data.
             parses_doc A d data' path' file_key'
             \<and> subtrees_data_of data' path' = Inr subtrees_data
             \<and> length (subtrees doc') = length subtrees_data
             \<and> (\<forall>j < length subtrees_data. \<exists>g'.
                   subtrees_data ! j = PDict g'
                   \<and> parses_grouping A (PDict dd) data' path' file_key' j (PDict g')
                   \<and> (\<forall>k \<in> set TOCTREE_OPTIONS.
                         getattr (subtrees doc' ! j) k = option_chain A g' dd k)
                   \<and> parse_toctree A (PDict dd) (path' @ show_nat j) (PDict (recognized_part g'))
                       = Inr (subtrees doc' ! j))))"
proof (intro conjI impI)
  assume h: "parses_doc A d data path file_key
            \<and> parses_grouping A (PDict dd) data path file_key i (PDict g)"
  from h have hd: "parses_doc A d data path file_key" by simp
  from parses_doc_registered[OF assms(1) hd] assms(2) obtain doc cds where
    p: "parse_doc_item A data (PDict dd) path file_key = Inr (doc, cds)"
    and l: "sm_lookup sm (docname doc) = Some doc"
    by auto
  from h obtain sd where sd: "subtrees_data_of data path = Inr sd" and i: "i < length sd"
    and g: "sd ! i = PDict g"
    by (auto simp: parses_grouping_def)
  from p sd obtain ts where ts: "parse_toctrees A (PDict dd) path 0 sd = Inr ts"
    and doc: "Document_new (dict_get data file_key) (dict_get data ''title'') ts = Some doc"
    by (auto simp: parse_doc_item_def split: if_splits sum.splits option.splits)
  from doc have st: "subtrees doc = ts"
    by (auto simp: Document_new_def split: pyval.splits)
  from parse_toctrees_nth[OF ts] i g
  have len: "length ts = length sd"
    and t: "parse_toctree A (PDict dd) (path @ show_nat i) (PDict g) = Inr (ts ! i)"
    by auto
  from doc have dn: "dict_get data file_key = PStr (docname doc)"
    by (auto simp: Document_new_def split: pyval.splits)
  from option_chain_parse_toctree[OF t] t dn l len i st
  show "\<exists>doc. dict_get data file_key = PStr (docname doc)
             \<and> sm_lookup sm (docname doc) = Some doc \<and> i < length (subtrees doc)
             \<and> (\<forall>k \<in> set TOCTREE_OPTIONS. getattr (subtrees doc ! i) k = option_chain A g dd k)
             \<and> parse_toctree A (PDict dd) (path @ show_nat i) (PDict (recognized_part g))
                 = Inr (subtrees doc ! i)"
    by (intro exI[of _ doc]) (simp add: parse_toctree_recognized_part)
next
  assume h: "doc' = root sm \<or> sm_lookup sm n = Some doc'"
  from parse_toc_data_sources[OF assms(1) h] assms(2) obtain data path fk ds where
    src: "parses_doc A d data path fk"
    and p: "parse_doc_item A data (PDict dd) path fk = Inr (doc', ds)"
    by auto
  from p obtain sd ts where k: "has_key data fk" and sd: "subtrees_data_of data path = Inr sd"
    and ts: "parse_toctrees A (PDict dd) path 0 sd = Inr ts"
    and doc: "Document_new (dict_get data fk) (dict_get data ''title'') ts = Some doc'"
    by (auto simp: parse_doc_item_def split: if_splits sum.splits option.splits)
  from doc have st: "subtrees doc' = ts"
    by (auto simp: Document_new_def split: pyval.splits)
  note nth = parse_toctrees_nth[OF ts]
  have "\<exists>g. sd ! i = PDict g
           \<and> parses_grouping A (PDict dd) data path fk i (PDict g)
           \<and> (\<forall>k \<in> set TOCTREE_OPTIONS. getattr (subtrees doc' ! i) k = option_chain A g dd k)
           \<and> parse_toctree A (PDict dd) (path @ show_nat i) (PDict (recognized_part g))
               = Inr (subtrees doc' ! i)"
    if i: "i < length sd" for i
  proof -
    from nth i have t: "parse_toctree A (PDict dd) (path @ show_nat i) (sd ! i) = Inr (ts ! i)"
      and pre: "\<exists>ts'. parse_toctrees A (PDict dd) path 0 (take i sd) = Inr ts'"
      by auto
    from t obtain g where g: "sd ! i = PDict g" by (elim parse_toctree_InrD)
    have pg: "parses_grouping A (PDict dd) data path fk i (PDict g)"
      using k sd i g pre by (auto simp: parses_grouping_def)
    from t g have t': "parse_toctree A (PDict dd) (path @ show_nat i) (PDict g) = Inr (ts ! i)"
      by simp
    from option_chain_parse_toctree[OF t'] t' g pg st show ?thesis
      by (simp add: parse_toctree_recognized_part)
  qed
  with src sd nth st
  show "\<exists>data' path' file_key' subtrees_data.
             parses_doc A d data' path' file_key'
             \<and> subtrees_data_of data' path' = Inr subtrees_data
             \<and> length (subtrees doc') = length subtrees_data
             \<and> (\<forall>j < length subtrees_data. \<exists>g'.
                   subtrees_data ! j = PDict g'
                   \<and> parses_grouping A (PDict dd) data' path' file_key' j (PDict g')
                   \<and> (\<forall>k \<in> set TOCTREE_OPTIONS.
                         getattr (subtrees doc' ! j) k = option_chain A g' dd k)
                   \<and> parse_toctree A (PDict dd) (path' @ show_nat j) (PDict (recognized_part g'))
                       = Inr (subtrees doc' ! j))"
    by (intro exI[of _ data] exI[of _ path] exI[of _ fk] exI[of _ sd]) simp
qed

theorem C5_option_resolution_witness:
  "parse_toc_data api0 (PDict c5_input) = Inr c5_site_map
   \<and> top_defaults c5_input = PDict [(''hidden'', PBool False), (''maxdepth'', PInt 3)]
   \<and> parses_doc api0 c5_input c5_entry ''/a/'' ''file''
   \<and> parses_grouping api0 (PDict [(''hidden'', PBool False), (''maxdepth'', PInt 3)])
        c5_entry ''/a/'' ''file'' 0 (PDict c5_grouping)
   \<and> (\<exists>doc. sm_lookup c5_site_map ''a'' = Some doc
         \<and> maxdepth (subtrees doc ! 0) = PInt 2
         \<and> hidden (subtrees doc ! 0) = PBool False
         \<and> caption (subtrees doc ! 0) = field_default api0 ''caption'')
   \<and> (\<exists>doc. sm_lookup c5_site_map ''index'' = Some doc
         \<and> maxdepth (subtrees doc ! 0) = PInt 3
         \<and> hidden (subtrees doc ! 0) = PBool False)"
proof -
  let ?dd = "[(''hidden'', PBool False), (''maxdepth'', PInt 3)]"
  let ?r = "\<lparr> docname = ''index'', title = None,
              subtrees = [c1_toc [FileItem ''a''] (PInt 3) (PBool False) \<lparr> hidden := PBool False \<rparr>] \<rparr>"
  have s: "parse_toc_data api0 (PDict c5_input) = Inr c5_site_map"
    by (simp add: c5_input_def c5_entry_def c5_grouping_def c5_site_map_def inst_defs
        parse_defs key_defs)
  have t: "top_defaults c5_input = PDict ?dd" by (simp add: c5_input_def top_defaults_def)
  have p: "parse_doc_item api0 c5_input (top_defaults c5_input) ''/'' ''root'' = Inr (?r, [c5_entry])"
    by (simp add: c5_input_def c5_entry_def c5_grouping_def inst_defs parse_defs key_defs)
  have r: "walk_reaches api0 c5_input [c5_entry] (SiteMap_new ?r (dict_get c5_input ''meta'')) ''/''"
    by (rule walk_reachesI[OF p walk_here])
  have d: "parses_doc api0 c5_input c5_entry ''/a/'' ''file''"
    using parses_docI[OF r, of "PStr ''a''"]
    by (simp add: c5_entry_def inst_defs parse_defs key_defs)
  have g: "parses_grouping api0 (PDict ?dd) c5_entry ''/a/'' ''file'' 0 (PDict c5_grouping)"
    using parses_groupingI[of c5_entry "''file''" "''/a/''" "[PDict c5_grouping]" 0 api0
        "PDict ?dd" "[]"]
    by (simp add: c5_entry_def parse_defs key_defs)
  let ?g0 = "[(''sections'', PList [PDict c5_entry])]"
  have g0: "parses_grouping api0 (PDict ?dd) c5_input ''/'' ''root'' 0 (PDict ?g0)"
    using parses_groupingI[of c5_input "''root''" "''/''" "[PDict ?g0]" 0 api0 "PDict ?dd" "[]"]
    by (simp add: c5_input_def parse_defs key_defs)
  from C5_option_resolution[OF s t, THEN conjunct1, THEN mp, OF conjI[OF d g]] obtain doc where
    n: "dict_get c5_entry ''file'' = PStr (docname doc)"
    and l: "sm_lookup c5_site_map (docname doc) = Some doc"
    and o: "\<forall>k \<in> set TOCTREE_OPTIONS.
              getattr (subtrees doc ! 0) k = option_chain api0 c5_grouping ?dd k"
    by blast
  from n have dn: "docname doc = ''a''" by (simp add: c5_entry_def dict_get_def)
  from o have "getattr (subtrees doc ! 0) ''maxdepth'' = option_chain api0 c5_grouping ?dd ''maxdepth''"
    "getattr (subtrees doc ! 0) ''hidden'' = option_chain api0 c5_grouping ?dd ''hidden''"
    "getattr (subtrees doc ! 0) ''caption'' = option_chain api0 c5_grouping ?dd ''caption''"
    by (simp_all add: TOCTREE_OPTIONS_def)
  with l dn have a: "\<exists>doc. sm_lookup c5_site_map ''a'' = Some doc
         \<and> maxdepth (subtrees doc ! 0) = PInt 2
         \<and> hidden (subtrees doc ! 0) = PBool False
         \<and> caption (subtrees doc ! 0) = field_default api0 ''caption''"
    by (intro exI[of _ doc]) (simp add: getattr_def option_chain_def c5_grouping_def)
  from C5_option_resolution[OF s t, THEN conjunct1, THEN mp, OF conjI[OF parses_doc_root g0]]
  obtain rdoc where
    n': "dict_get c5_input ''root'' = PStr (docname rdoc)"
    and l': "sm_lookup c5_site_map (docname rdoc) = Some rdoc"
    and o': "\<forall>k \<in> set TOCTREE_OPTIONS.
              getattr (subtrees rdoc ! 0) k = option_chain api0 ?g0 ?dd k"
    by blast
  from n' have dn': "docname rdoc = ''index''" by (simp add: c5_input_def dict_get_def)
  from o' have "getattr (subtrees rdoc ! 0) ''maxdepth'' = option_chain api0 ?g0 ?dd ''maxdepth''"
    "getattr (subtrees rdoc ! 0) ''hidden'' = option_chain api0 ?g0 ?dd ''hidden''"
    by (simp_all add: TOCTREE_OPTIONS_def)
  with l' dn' have b: "\<exists>doc. sm_lookup c5_site_map ''index'' = Some doc
         \<and> maxdepth (subtrees doc ! 0) = PInt 3
         \<and> hidden (subtrees doc ! 0) = PBool False"
    by (intro exI[of _ rdoc]) (simp add: getattr_def option_chain_def)
  from s t d g a b show ?thesis by simp
qed

text \<open>
  C7. When the parse of an input comes to a grouping, at any index of the root or of a
  nested document, whose construction fails (a keyword that is no field, a value that its
  validator refuses, a keyword that is not a string), the parse of the whole input is
  \<open>MalformedError\<close> "toctree validation" with the path of the grouping; when it comes to
  a document whose construction fails, the parse of the whole input is \<open>MalformedError\<close>
  "doc validation" with the path of the document. The callers in between hand the error on
  as it is.
\<close>

theorem C7_construction_errors_wrapped:
  assumes "parses_doc A d data path file_key"
  shows "(parses_grouping A (top_defaults d) data path file_key toc_idx (PDict g)
            \<and> map_of g DEFAULT_ITEMS_KEY = Some v \<and> seq_elems v = Some (x # xs)
            \<and> parse_items A (path @ show_nat toc_idx) 0 (x # xs) = Inr its
            \<and> merge_defaults (top_defaults d) (own_keywords g) = Inr (kw, bad)
            \<and> (bad \<or> TocTree_new A its kw = None)
          \<longrightarrow> parse_toc_data A (PDict d)
                = Inl (MalformedError (ToctreeValidation (path @ show_nat toc_idx))))
         \<and> (has_key data file_key \<and> subtrees_data_of data path = Inr sd
            \<and> parse_toctrees A (top_defaults d) path 0 sd = Inr ts
            \<and> Document_new (dict_get data file_key) (dict_get data ''title'') ts = None
          \<longrightarrow> parse_toc_data A (PDict d) = Inl (MalformedError (DocValidation path)))"
proof (intro conjI impI)
  assume h: "parses_grouping A (top_defaults d) data path file_key toc_idx (PDict g)
            \<and> map_of g DEFAULT_ITEMS_KEY = Some v \<and> seq_elems v = Some (x # xs)
            \<and> parse_items A (path @ show_nat toc_idx) 0 (x # xs) = Inr its
            \<and> merge_defaults (top_defaults d) (own_keywords g) = Inr (kw, bad)
            \<and> (bad \<or> TocTree_new A its kw = None)"
  then have "parse_toctree A (top_defaults d) (path @ show_nat toc_idx) (PDict g)
               = Inl (MalformedError (ToctreeValidation (path @ show_nat toc_idx)))"
    by (auto simp: parse_toctree_def)
  from parses_grouping_error[OF _ this] h
  have "parse_doc_item A data (top_defaults d) path file_key
          = Inl (MalformedError (ToctreeValidation (path @ show_nat toc_idx)))" by blast
  from parses_doc_error[OF assms this]
  show "parse_toc_data A (PDict d)
          = Inl (MalformedError (ToctreeValidation (path @ show_nat toc_idx)))" .
next
  assume "has_key data file_key \<and> subtrees_data_of data path = Inr sd
            \<and> parse_toctrees A (top_defaults d) path 0 sd = Inr ts
            \<and> Document_new (dict_get data file_key) (dict_get data ''title'') ts = None"
  then have "parse_doc_item A data (top_defaults d) path file_key
               = Inl (MalformedError (DocValidation path))"
    by (simp add: parse_doc_item_def)
  from parses_doc_error[OF assms this]
  show "parse_toc_data A (PDict d) = Inl (MalformedError (DocValidation path))" .
qed

theorem C7_construction_errors_wrapped_witness:
  "parses_doc api0 c7_input c7_entry ''/b/'' ''file''
   \<and> parses_grouping api0 (top_defaults c7_input) c7_entry ''/b/'' ''file'' 1 (PDict c7_grouping)
   \<and> merge_defaults (top_defaults c7_input) (own_keywords c7_grouping)
       = Inr ([(''maxdepth'', PStr ''x'')], False)
   \<and> TocTree_new api0 [GlobItem ''*''] [(''maxdepth'', PStr ''x'')] = None
   \<and> parse_toc_data api0 (PDict c7_input) = Inl (MalformedError (ToctreeValidation ''/b/1''))
   \<and> parses_doc api0 c7_doc_input [(''file'', PStr ''a''), (''title'', PInt 5)] ''/a/'' ''file''
   \<and> Document_new (PStr ''a'') (PInt 5) [] = None
   \<and> parse_toc_data api0 (PDict c7_doc_input) = Inl (MalformedError (DocValidation ''/a/''))"
proof -
  let ?a = "[(''file'', PStr ''a'')]"
  let ?g0 = "[(''sections'', PList [PDict [(''file'', PStr ''c'')]])]"
  let ?r = "plain_doc ''index'' [[FileItem ''a'', FileItem ''b'']]"
  let ?sm0 = "SiteMap_new ?r (dict_get c7_input ''meta'')"
  let ?sm1 = "\<lparr> root = ?r, meta = PNone,
                 docs = [(''index'', ?r), (''a'', plain_doc ''a'' [])] \<rparr>"
  have p: "parse_doc_item api0 c7_input (top_defaults c7_input) ''/'' ''root''
             = Inr (?r, [?a, c7_entry])"
    by (simp add: c7_input_def c7_entry_def c7_grouping_def inst_defs parse_defs key_defs)
  have w: "walk api0 (top_defaults c7_input) [?a, c7_entry] ?sm0 ''/'' [c7_entry] ?sm1 ''/''"
    using walk_rest[where A = api0 and defaults = "top_defaults c7_input" and doc_data = ?a
        and name = "PStr ''a''" and sm = ?sm0 and path = "''/''"
        and child_item = "plain_doc ''a'' []" and child_docs_list = "[]"
        and site_map' = ?sm1 and rest = "[c7_entry]" and ds' = "[c7_entry]" and sm' = ?sm1
        and path' = "''/''"]
      walk_here[of api0 "top_defaults c7_input" "[c7_entry]" ?sm1 "''/''"]
    by (simp add: c7_input_def inst_defs parse_defs key_defs)
  have r: "walk_reaches api0 c7_input [c7_entry] ?sm1 ''/''"
    by (rule walk_reachesI[OF p w])
  have d: "parses_doc api0 c7_input c7_entry ''/b/'' ''file''"
    using parses_docI[OF r, of "PStr ''b''"]
    by (simp add: c7_entry_def inst_defs parse_defs key_defs)
  have g: "parses_grouping api0 (top_defaults c7_input) c7_entry ''/b/'' ''file'' 1 (PDict c7_grouping)"
    using parses_groupingI[of c7_entry "''file''" "''/b/''" "[PDict ?g0, PDict c7_grouping]" 1 api0
        "top_defaults c7_input" "[default_toctree api0 [FileItem ''c'']]"]
    by (simp add: c7_input_def c7_entry_def inst_defs parse_defs key_defs)
  have m: "merge_defaults (top_defaults c7_input) (own_keywords c7_grouping)
             = Inr ([(''maxdepth'', PStr ''x'')], False)"
    by (simp add: c7_input_def c7_grouping_def inst_defs parse_defs key_defs)
  have n: "TocTree_new api0 [GlobItem ''*''] [(''maxdepth'', PStr ''x'')] = None"
    by (simp add: TocTree_new_def TOCTREE_OPTIONS_def api0_def)
  have i: "map_of c7_grouping DEFAULT_ITEMS_KEY = Some (PList [PDict [(''glob'', PStr ''*'')]])
           \<and> seq_elems (PList [PDict [(''glob'', PStr ''*'')]]) = Some (PDict [(''glob'', PStr ''*'')] # [])
           \<and> parse_items api0 (''/b/'' @ show_nat 1) 0 (PDict [(''glob'', PStr ''*'')] # [])
               = Inr [GlobItem ''*'']"
    by (simp add: c7_grouping_def parse_defs key_defs)
  let ?e = "[(''file'', PStr ''a''), (''title'', PInt 5)]"
  let ?r' = "plain_doc ''index'' [[FileItem ''a'']]"
  have p': "parse_doc_item api0 c7_doc_input (top_defaults c7_doc_input) ''/'' ''root''
              = Inr (?r', [?e])"
    by (simp add: c7_doc_input_def inst_defs parse_defs key_defs)
  have r': "walk_reaches api0 c7_doc_input [?e]
              (SiteMap_new ?r' (dict_get c7_doc_input ''meta'')) ''/''"
    by (rule walk_reachesI[OF p' walk_here])
  have d': "parses_doc api0 c7_doc_input ?e ''/a/'' ''file''"
    using parses_docI[OF r', of "PStr ''a''"]
    by (simp add: inst_defs parse_defs key_defs)
  have n': "Document_new (PStr ''a'') (PInt 5) [] = None" by (simp add: Document_new_def)
  have s': "has_key ?e ''file'' \<and> subtrees_data_of ?e ''/a/'' = Inr []
            \<and> parse_toctrees api0 (top_defaults c7_doc_input) ''/a/'' 0 [] = Inr []
            \<and> Document_new (dict_get ?e ''file'') (dict_get ?e ''title'') [] = None"
    by (simp add: parse_defs key_defs)
  from C7_construction_errors_wrapped[OF d, where toc_idx = 1 and g = c7_grouping
      and v = "PList [PDict [(''glob'', PStr ''*'')]]" and x = "PDict [(''glob'', PStr ''*'')]"
      and xs = "[]" and its = "[GlobItem ''*'']" and kw = "[(''maxdepth'', PStr ''x'')]"
      and bad = False] g m n i
  have a: "parse_toc_data api0 (PDict c7_input) = Inl (MalformedError (ToctreeValidation ''/b/1''))"
    by (simp add: show_nat_small)
  from C7_construction_errors_wrapped[OF d', where sd = "[]" and ts = "[]"] s'
  have b: "parse_toc_data api0 (PDict c7_doc_input) = Inl (MalformedError (DocValidation ''/a/''))"
    by simp
  from a b d g m n d' n' show ?thesis by simp
qed

text \<open>
  C9 (as amended). When the top-level defaults mapping has a key outside the recognized
  set, every input whose root has the items key or the subtrees key fails to parse, and
  with \<open>MalformedError\<close> but for two cases in which a \<open>TypeError\<close> reaches the caller: the
  \<^verbatim>\<open>options\<close> value of the shorthand is no mapping (line 73), which is the case
  exactly when the root key and the items key are present, the subtrees key is absent
  and \<^verbatim>\<open>options\<close> holds a value that is no mapping; or the construction of a url item
  of the root's first grouping raises (line 133). Whenever the entries of the root's first
  grouping parse, the error is "toctree validation" for the path \<open>/0\<close>.
\<close>

theorem C9_unrecognized_default_key:
  assumes "map_of data ''defaults'' = Some (PDict dd)"
    and "k \<in> fst ` set dd" and "k \<notin> set TOCTREE_OPTIONS"
    and "has_key data DEFAULT_ITEMS_KEY \<or> has_key data DEFAULT_SUBTREES_KEY"
  shows "((\<exists>m. parse_toc_data A (PDict data) = Inl (MalformedError m))
          \<or> parse_toc_data A (PDict data) = Inl (TypeError ''object is not a mapping'')
          \<or> parse_toc_data A (PDict data) = Inl (TypeError ''UrlItem''))
         \<and> (parse_toc_data A (PDict data) = Inl (TypeError ''object is not a mapping'') \<longleftrightarrow>
              has_key data ''root'' \<and> has_key data DEFAULT_ITEMS_KEY
              \<and> \<not> has_key data DEFAULT_SUBTREES_KEY
              \<and> (\<exists>v. map_of data ''options'' = Some v \<and> (\<forall>opts. v \<noteq> PDict opts)))
         \<and> (parse_toc_data A (PDict data) = Inl (TypeError ''UrlItem'') \<longrightarrow>
              (\<exists>g gs v xs x. subtrees_data_of data ''/'' = Inr (PDict g # gs)
                 \<and> map_of g DEFAULT_ITEMS_KEY = Some v \<and> seq_elems v = Some xs
                 \<and> x \<in> set xs \<and> url_fails x))
         \<and> (has_key data ''root'' \<and> subtrees_data_of data ''/'' = Inr (PDict g # gs)
              \<and> map_of g DEFAULT_ITEMS_KEY = Some v \<and> seq_elems v = Some (x # xs)
              \<and> parse_items A ''/0'' 0 (x # xs) = Inr its \<longrightarrow>
            parse_toc_data A (PDict data) = Inl (MalformedError (ToctreeValidation ''/0'')))"
proof -
  let ?R = "parse_toc_data A (PDict data)"
  have td: "top_defaults data = PDict dd" using assms(1) by (simp add: top_defaults_def)
  let ?mapping = "has_key data ''root'' \<and> has_key data DEFAULT_ITEMS_KEY
              \<and> \<not> has_key data DEFAULT_SUBTREES_KEY
              \<and> (\<exists>v. map_of data ''options'' = Some v \<and> (\<forall>opts. v \<noteq> PDict opts))"
  let ?url = "\<exists>g gs v xs x. subtrees_data_of data ''/'' = Inr (PDict g # gs)
                 \<and> map_of g DEFAULT_ITEMS_KEY = Some v \<and> seq_elems v = Some xs
                 \<and> x \<in> set xs \<and> url_fails x"
  have main: "(\<exists>m. ?R = Inl (MalformedError m) \<and> \<not> ?mapping)
              \<or> (?R = Inl (TypeError ''object is not a mapping'') \<and> ?mapping)
              \<or> (?R = Inl (TypeError ''UrlItem'') \<and> ?url \<and> \<not> ?mapping)"
  proof (cases "has_key data ''root''")
    case False
    then show ?thesis by (simp add: parse_toc_data_unfold td parse_doc_item_def)
  next
    case True
    show ?thesis
    proof (cases "subtrees_data_of data ''/''")
      case (Inl e)
      then have R: "?R = Inl e" using True by (simp add: parse_toc_data_unfold td parse_doc_item_def)
      from subtrees_data_of_error[OF Inl] show ?thesis
      proof
        assume m: "\<exists>m. e = MalformedError m"
        have "\<not> ?mapping"
          using Inl m by (auto simp: subtrees_data_of_def split: pyval.splits if_splits)
        with m show ?thesis using R by auto
      next
        assume "e = TypeError ''object is not a mapping'' \<and> has_key data DEFAULT_ITEMS_KEY
            \<and> \<not> has_key data DEFAULT_SUBTREES_KEY
            \<and> (\<exists>v. map_of data ''options'' = Some v \<and> (\<forall>opts. v \<noteq> PDict opts))"
        with R True show ?thesis by simp
      qed
    next
      case (Inr sd)
      from subtrees_data_of_nonempty[OF assms(4) Inr] obtain t rest where sd: "sd = t # rest"
        by (cases sd) auto
      have nm: "\<not> ?mapping"
        using Inr by (auto simp: subtrees_data_of_def split: pyval.splits if_splits)
      from parse_toctree_unrecognized_error[OF assms(2,3), of A "''/0''" t] obtain e where
        e: "parse_toctree A (PDict dd) ''/0'' t = Inl e"
        and k: "(\<exists>m. e = MalformedError m)
              \<or> (e = TypeError ''UrlItem''
                 \<and> (\<exists>g v xs x. t = PDict g \<and> map_of g DEFAULT_ITEMS_KEY = Some v
                       \<and> seq_elems v = Some xs \<and> x \<in> set xs \<and> url_fails x))"
        by blast
      have R: "?R = Inl e"
        using True Inr sd e
        by (simp add: parse_toc_data_unfold td parse_doc_item_def show_nat_small)
      from k show ?thesis
      proof
        assume "\<exists>m. e = MalformedError m"
        with R nm show ?thesis by auto
      next
        assume "e = TypeError ''UrlItem''
                 \<and> (\<exists>g v xs x. t = PDict g \<and> map_of g DEFAULT_ITEMS_KEY = Some v
                       \<and> seq_elems v = Some xs \<and> x \<in> set xs \<and> url_fails x)"
        with R nm Inr sd show ?thesis by auto
      qed
    qed
  qed
  have last: "?R = Inl (MalformedError (ToctreeValidation ''/0''))"
    if h: "has_key data ''root'' \<and> subtrees_data_of data ''/'' = Inr (PDict g # gs)
              \<and> map_of g DEFAULT_ITEMS_KEY = Some v \<and> seq_elems v = Some (x # xs)
              \<and> parse_items A ''/0'' 0 (x # xs) = Inr its"
  proof -
    from h have "parse_toctree A (PDict dd) ''/0'' (PDict g)
               = Inl (MalformedError (ToctreeValidation ''/0''))"
      using parse_toctree_unrecognized_default_items[OF assms(2,3), of g v x xs A "''/0''" its]
      by simp
    with h show ?thesis
      by (simp add: parse_toc_data_unfold td parse_doc_item_def show_nat_small)
  qed
  from main last show ?thesis by (auto simp del: ex_simps)
qed

theorem C9_unrecognized_default_key_witness:
  "map_of c9_ok_input ''defaults'' = Some (PDict [(''foo'', PInt 1)])
   \<and> ''foo'' \<in> fst ` set [(''foo'', PInt 1)] \<and> ''foo'' \<notin> set TOCTREE_OPTIONS
   \<and> has_key c9_ok_input DEFAULT_ITEMS_KEY
   \<and> parse_toc_data api0 (PDict c9_ok_input) = Inl (MalformedError (ToctreeValidation ''/0''))
   \<and> map_of c9_url_input ''defaults'' = Some (PDict [(''foo'', PInt 1)])
   \<and> has_key c9_url_input DEFAULT_ITEMS_KEY
   \<and> url_fails (PDict [(''url'', PInt 5)])
   \<and> parse_toc_data api0 (PDict c9_url_input) = Inl (TypeError ''UrlItem'')
   \<and> map_of c9_input ''options'' = Some (PInt 5)
   \<and> parse_toc_data api0 (PDict c9_input) = Inl (TypeError ''object is not a mapping'')"
proof -
  have h1: "map_of c9_ok_input ''defaults'' = Some (PDict [(''foo'', PInt 1)])"
    by (simp add: c9_ok_input_def)
  have h2: "''foo'' \<in> fst ` set [(''foo'', PInt 1)]" by simp
  have h3: "''foo'' \<notin> set TOCTREE_OPTIONS" by (simp add: TOCTREE_OPTIONS_def)
  have h4: "has_key c9_ok_input DEFAULT_ITEMS_KEY \<or> has_key c9_ok_input DEFAULT_SUBTREES_KEY"
    by (simp add: c9_ok_input_def has_key_def key_defs)
  from C9_unrecognized_default_key[OF h1 h2 h3 h4,
      where g = "[(''sections'', PList [PDict [(''file'', PStr ''a'')]])]" and gs = "[]"
        and v = "PList [PDict [(''file'', PStr ''a'')]]" and x = "PDict [(''file'', PStr ''a'')]"
        and xs = "[]" and A = api0 and its = "[FileItem ''a'']"]
  have a: "parse_toc_data api0 (PDict c9_ok_input) = Inl (MalformedError (ToctreeValidation ''/0''))"
    by (simp add: c9_ok_input_def subtrees_data_of_def has_key_def dict_get_def seq_elems_def
        key_defs parse_item_entry_def link_keys_of_def incompatible_keys_def py_str_def
        show_nat_small)
  have k1: "map_of c9_input ''defaults'' = Some (PDict [(''foo'', PInt 1)])"
    by (simp add: c9_input_def)
  have k4: "has_key c9_input DEFAULT_ITEMS_KEY \<or> has_key c9_input DEFAULT_SUBTREES_KEY"
    by (simp add: c9_input_def has_key_def key_defs)
  from C9_unrecognized_default_key[OF k1 h2 h3 k4, where A = api0]
  have b: "parse_toc_data api0 (PDict c9_input) = Inl (TypeError ''object is not a mapping'')"
    by (simp add: c9_input_def has_key_def key_defs)
  have u1: "map_of c9_url_input ''defaults'' = Some (PDict [(''foo'', PInt 1)])"
    by (simp add: c9_url_input_def)
  have u: "url_fails (PDict [(''url'', PInt 5)])"
    by (simp add: url_fails_def link_keys_of_def has_key_def dict_get_def UrlItem_new_def key_defs)
  have c: "parse_toc_data api0 (PDict c9_url_input) = Inl (TypeError ''UrlItem'')"
    by (simp add: c9_url_input_def parse_defs key_defs)
  from a b c h1 h2 h3 u1 u show ?thesis
    by (simp add: c9_ok_input_def c9_url_input_def c9_input_def has_key_def key_defs)
qed

text \<open>
  C9 as stated has every such input raise \<open>MalformedError\<close>. With an \<^verbatim>\<open>options\<close>
  value that is no mapping, line 73 raises \<open>TypeError\<close> before any grouping is looked at.
\<close>

theorem C9_type_error_first_counterexample:
  "map_of c9_input ''defaults'' = Some (PDict [(''foo'', PInt 1)])
   \<and> ''foo'' \<notin> set TOCTREE_OPTIONS
   \<and> has_key c9_input DEFAULT_ITEMS_KEY
   \<and> parse_toc_data api0 (PDict c9_input) = Inl (TypeError ''object is not a mapping'')"
  by (simp add: c9_input_def parse_defs key_defs)


section \<open>Properties of the serializer\<close>



text \<open>
  C10. The set of visited docnames is one for the whole traversal. A serialization that
  succeeds has inlined every document of its list \<open>inlined_by\<close> once: the list has no
  docname twice, none of them was in the set that was given, and the set that is returned
  is the given set with all of them, also those inlined in nested calls. Whenever the list
  has a docname twice, or one that is in the given set, the serialization raises
  \<open>RecursionError\<close> for a docname of the list, also when the site map has no cycle (two
  documents that list the same third one); else it succeeds. The same holds of
  \<^verbatim>\<open>create_toc_dict\<close>, which starts from the empty set.
\<close>

theorem C10_visited_set_is_global:
  "(docitem_to_dict A sm skip fk P doc = Inr (d, P') \<longrightarrow>
      (\<exists>ns. inlined_by sm doc ns \<and> distinct ns \<and> P \<inter> set ns = {} \<and> P' = P \<union> set ns))
   \<and> (inlined_by sm doc ns \<and> (\<not> distinct ns \<or> P \<inter> set ns \<noteq> {}) \<longrightarrow>
        (\<exists>n \<in> set ns. docitem_to_dict A sm skip fk P doc = Inl (RecursionError n)))
   \<and> (inlined_by sm doc ns \<and> distinct ns \<and> P \<inter> set ns = {} \<longrightarrow>
        (\<exists>d. docitem_to_dict A sm skip fk P doc = Inr (d, P \<union> set ns)))
   \<and> (create_toc_dict A sm skip = Inr out \<longrightarrow>
        (\<exists>ns. inlined_by sm (root sm) ns \<and> distinct ns))
   \<and> (inlined_by sm (root sm) ns \<and> \<not> distinct ns \<longrightarrow>
        (\<exists>n \<in> set ns. create_toc_dict A sm skip = Inl (RecursionError n)))
   \<and> ((\<forall>ms. \<not> inlined_by sm doc ms) \<longrightarrow>
        (\<exists>n. docitem_to_dict A sm skip fk P doc = Inl (RecursionError n)))"
proof -
  have a: "docitem_to_dict A sm skip fk P doc = Inr (d, P') \<longrightarrow>
      (\<exists>ns. inlined_by sm doc ns \<and> distinct ns \<and> P \<inter> set ns = {} \<and> P' = P \<union> set ns)"
    using docitem_to_dict_inlined_by[of A sm skip fk P doc d P']
    by (auto simp: visits_once_def)
  have b: "inlined_by sm doc ns \<and> (\<not> distinct ns \<or> P \<inter> set ns \<noteq> {}) \<longrightarrow>
        (\<exists>n \<in> set ns. docitem_to_dict A sm skip fk P doc = Inl (RecursionError n))"
    using inlined_by_result[of sm doc ns P A skip fk] by (auto simp: visits_once_def)
  have c: "inlined_by sm doc ns \<and> distinct ns \<and> P \<inter> set ns = {} \<longrightarrow>
        (\<exists>d. docitem_to_dict A sm skip fk P doc = Inr (d, P \<union> set ns))"
    using inlined_by_result[of sm doc ns P A skip fk] by (auto simp: visits_once_def)
  have e: "create_toc_dict A sm skip = Inr out \<longrightarrow>
        (\<exists>ns. inlined_by sm (root sm) ns \<and> distinct ns)"
  proof
    assume "create_toc_dict A sm skip = Inr out"
    then obtain data Q where "docitem_to_dict A sm skip ''root'' {} (root sm) = Inr (data, Q)"
      by (auto simp: create_toc_dict_def split: sum.splits)
    from docitem_to_dict_inlined_by[OF this]
    show "\<exists>ns. inlined_by sm (root sm) ns \<and> distinct ns" by (auto simp: visits_once_def)
  qed
  have f: "inlined_by sm (root sm) ns \<and> \<not> distinct ns \<longrightarrow>
        (\<exists>n \<in> set ns. create_toc_dict A sm skip = Inl (RecursionError n))"
    using inlined_by_result[of sm "root sm" ns "{}" A skip "''root''"]
    by (auto simp: visits_once_def create_toc_dict_def)
  have g: "(\<forall>ms. \<not> inlined_by sm doc ms) \<longrightarrow>
        (\<exists>n. docitem_to_dict A sm skip fk P doc = Inl (RecursionError n))"
  proof
    assume no: "\<forall>ms. \<not> inlined_by sm doc ms"
    show "\<exists>n. docitem_to_dict A sm skip fk P doc = Inl (RecursionError n)"
    proof (cases "docitem_to_dict A sm skip fk P doc")
      case (Inl e)
      with serializer_errors(1)[OF Inl] show ?thesis by auto
    next
      case (Inr r)
      obtain d' Q where "r = (d', Q)" by (cases r)
      with Inr docitem_to_dict_inlined_by[of A sm skip fk P doc d' Q] no show ?thesis by blast
    qed
  qed
  from a b c e f g show ?thesis by blast
qed

theorem C10_visited_set_is_global_witness:
  "inlined_by c10_diamond (root c10_diamond) [''index'', ''a'', ''c'', ''b'', ''c'']
   \<and> \<not> distinct [''index'', ''a'', ''c'', ''b'', ''c'']
   \<and> docitem_to_dict api0 c10_diamond True ''root'' {} (root c10_diamond)
       = Inl (RecursionError ''c'')
   \<and> create_toc_dict api0 c10_diamond True = Inl (RecursionError ''c'')
   \<and> inlined_by (c2_site_map api0) (root (c2_site_map api0)) [''index'', ''a'']
   \<and> docitem_to_dict api0 (c2_site_map api0) True ''root'' {} (root (c2_site_map api0))
       = Inr ([(''root'', PStr ''index''), (''sections'', PList [PDict [(''file'', PStr ''a'')]])],
              {} \<union> set [''index'', ''a''])"
proof -
  let ?ns = "[''index'', ''a'', ''c'', ''b'', ''c'']"
  have c: "inlined c10_diamond [FileItem ''c''] [''c'']"
    using inlined_File[where sm = c10_diamond and name = "''c''"
        and doc = "\<lparr> docname = ''c'', title = None, subtrees = [] \<rparr>" and ns = "[]"
        and rest = "[]" and ns' = "[]"] inlined_Nil[of c10_diamond]
    by (simp add: c10_diamond_def sm_lookup_def)
  have b: "inlined c10_diamond [FileItem ''b''] [''b'', ''c'']"
    using inlined_File[where sm = c10_diamond and name = "''b''"
        and doc = "\<lparr> docname = ''b'', title = None,
                      subtrees = [default_toctree api0 [FileItem ''c'']] \<rparr>" and ns = "[''c'']"
        and rest = "[]" and ns' = "[]"] c inlined_Nil[of c10_diamond]
    by (simp add: c10_diamond_def sm_lookup_def default_toctree_def)
  have a: "inlined c10_diamond [FileItem ''a'', FileItem ''b''] [''a'', ''c'', ''b'', ''c'']"
    using inlined_File[where sm = c10_diamond and name = "''a''"
        and doc = "\<lparr> docname = ''a'', title = None,
                      subtrees = [default_toctree api0 [FileItem ''c'']] \<rparr>" and ns = "[''c'']"
        and rest = "[FileItem ''b'']" and ns' = "[''b'', ''c'']"] c b
    by (simp add: c10_diamond_def sm_lookup_def default_toctree_def)
  have i: "inlined_by c10_diamond (root c10_diamond) ?ns"
    using a by (simp add: inlined_by_def c10_diamond_def default_toctree_def)
  have nd: "\<not> distinct ?ns" by simp
  from C10_visited_set_is_global[where sm = c10_diamond and doc = "root c10_diamond"
      and ns = ?ns and P = "{}" and A = api0 and skip = True and fk = "''root''"] i nd
  have e: "\<exists>n \<in> set ?ns. docitem_to_dict api0 c10_diamond True ''root'' {} (root c10_diamond)
             = Inl (RecursionError n)"
    and e': "\<exists>n \<in> set ?ns. create_toc_dict api0 c10_diamond True = Inl (RecursionError n)"
    by blast+
  have dia: "docitem_to_dict api0 c10_diamond True ''root'' {} (root c10_diamond)
               = Inl (RecursionError ''c'')"
    by (simp add: docitem_to_dict.simps c10_diamond_def default_toctree_def sm_lookup_def
        doc_header_def toctree_options_def getattr_def TOCTREE_OPTIONS_def api0_def
        apply_shorthand_def has_key_def dict_get_def key_defs)
  then have cr: "create_toc_dict api0 c10_diamond True = Inl (RecursionError ''c'')"
    by (simp add: create_toc_dict_def)
  have a2: "inlined (c2_site_map api0) [FileItem ''a''] [''a'']"
    using inlined_File[where sm = "c2_site_map api0" and name = "''a''"
        and doc = "\<lparr> docname = ''a'', title = None, subtrees = [] \<rparr>" and ns = "[]"
        and rest = "[]" and ns' = "[]"] inlined_Nil[of "c2_site_map api0"]
    by (simp add: c2_site_map_def sm_lookup_def)
  have i2: "inlined_by (c2_site_map api0) (root (c2_site_map api0)) [''index'', ''a'']"
    using a2 by (simp add: inlined_by_def c2_site_map_def default_toctree_def)
  from C10_visited_set_is_global[where sm = "c2_site_map api0" and doc = "root (c2_site_map api0)"
      and ns = "[''index'', ''a'']" and P = "{}" and A = api0 and skip = True and fk = "''root''"] i2
  have "\<exists>d. docitem_to_dict api0 (c2_site_map api0) True ''root'' {} (root (c2_site_map api0))
          = Inr (d, {} \<union> set [''index'', ''a''])"
    by simp
  moreover have "docitem_to_dict api0 (c2_site_map api0) True ''root'' {} (root (c2_site_map api0))
     = Inr ([(''root'', PStr ''index''), (''sections'', PList [PDict [(''file'', PStr ''a'')]])],
            {''a'', ''index''})"
    by (simp add: docitem_to_dict.simps c2_site_map_def default_toctree_def sm_lookup_def
        doc_header_def toctree_options_def getattr_def TOCTREE_OPTIONS_def api0_def
        apply_shorthand_def has_key_def dict_get_def key_defs insert_commute)
  ultimately have ok: "docitem_to_dict api0 (c2_site_map api0) True ''root'' {} (root (c2_site_map api0))
     = Inr ([(''root'', PStr ''index''), (''sections'', PList [PDict [(''file'', PStr ''a'')]])],
            {} \<union> set [''index'', ''a''])"
    by auto
  from i nd e e' dia cr i2 ok show ?thesis by simp
qed


section \<open>The round trip\<close>

subsection \<open>What a successful parse returns\<close>

lemma file_names_of_append [simp]:
  "file_names_of (xs @ ys) = file_names_of xs @ file_names_of ys"
  by (induction xs rule: file_names_of.induct) auto

lemma parse_item_entry_file:
  assumes "parse_item_entry A loc x = Inr it"
  shows "map (entry_name A) (entry_of x) = file_names_of [it]"
proof -
  from assms obtain d where d: "x = PDict d"
    by (cases x) (simp_all add: parse_item_entry_def)
  from assms d obtain k where lk: "link_keys_of d = [k]"
    by (cases "link_keys_of d"; cases "tl (link_keys_of d)")
       (auto simp: parse_item_entry_def split: if_splits)
  show ?thesis
  proof (cases "has_key d FILE_KEY")
    case True
    then have "link_keys_of d = [FILE_KEY]"
      using lk by (auto simp: link_keys_of_def split: if_splits)
    with assms d True show ?thesis
      by (auto simp: parse_item_entry_def entry_name_def Let_def split: option.splits)
  next
    case False
    then have kk: "k \<noteq> FILE_KEY" using lk by (auto simp: link_keys_of_def split: if_splits)
    with assms d lk False show ?thesis
      by (auto simp: parse_item_entry_def Let_def UrlItem_new_def
          split: option.splits if_splits pyval.splits)
  qed
qed

lemma parse_items_files:
  "parse_items A loc i xs = Inr its \<Longrightarrow>
     map (entry_name A) (concat (map entry_of xs)) = file_names_of its \<and> length its = length xs"
proof (induction xs arbitrary: i its)
  case Nil
  then show ?case by simp
next
  case (Cons x xs)
  from Cons.prems obtain it its' where it: "parse_item_entry A (loc @ ''/'' @ show_nat i) x = Inr it"
    and its': "parse_items A loc (Suc i) xs = Inr its'" and e: "its = it # its'"
    by (auto split: sum.splits)
  from parse_item_entry_file[OF it] Cons.IH[OF its'] e show ?case
    by (cases it) auto
qed

lemma kw_value_ok:
  assumes "list_all (\<lambda>(k, v). k \<in> set TOCTREE_OPTIONS \<and> field_valid A k v) kw"
  shows "field_valid A k (kw_value A kw k) \<or> kw_value A kw k = field_default A k"
proof (cases "map_of kw k")
  case None
  then show ?thesis by (simp add: kw_value_def)
next
  case (Some v)
  then have "(k, v) \<in> set kw" by (rule map_of_SomeD)
  with assms have "field_valid A k v" by (auto simp: list_all_iff)
  with Some show ?thesis by (simp add: kw_value_def)
qed

lemma TocTree_new_ok:
  assumes "TocTree_new A its kw = Some t" and "its \<noteq> []"
  shows "toc_ok A t"
proof -
  note d = TocTree_new_SomeD[OF assms(1)]
  have "field_valid A k (getattr t k) \<or> getattr t k = field_default A k"
    if "k \<in> set TOCTREE_OPTIONS" for k
    using kw_value_ok[OF d[THEN conjunct2], of k] getattr_TocTree_new[OF assms(1) that] by simp
  moreover have "items t = its" by (rule items_TocTree_new[OF assms(1)])
  ultimately show ?thesis using assms(2) by (simp add: toc_ok_def list_all_iff)
qed

lemma parse_toctree_structure:
  assumes "parse_toctree A defaults loc td = Inr t"
  shows "map (entry_name A) (file_entries td) = file_names_of (items t) \<and> toc_ok A t"
proof -
  from assms obtain d v x xs its kw where td: "td = PDict d"
    and v: "map_of d DEFAULT_ITEMS_KEY = Some v" and xs: "seq_elems v = Some (x # xs)"
    and its: "parse_items A loc 0 (x # xs) = Inr its" and t: "TocTree_new A its kw = Some t"
    by (elim parse_toctree_InrD)
  from parse_items_files[OF its] have f: "map (entry_name A) (concat (map entry_of (x # xs))) = file_names_of its"
    and l: "length its = length (x # xs)" by auto
  from l have ne: "its \<noteq> []" by auto
  have "file_entries td = concat (map entry_of (x # xs))"
    using td v xs by (simp add: file_entries_def dict_get_def)
  with f items_TocTree_new[OF t] TocTree_new_ok[OF t ne] show ?thesis by simp
qed

lemma parse_toctrees_structure:
  "parse_toctrees A defaults path i tds = Inr ts \<Longrightarrow>
     map (entry_name A) (docs_data_of tds) = file_names_of (concat (map items ts))
     \<and> list_all (toc_ok A) ts"
proof (induction tds arbitrary: i ts)
  case Nil
  then show ?case by (simp add: docs_data_of_def)
next
  case (Cons td tds)
  from Cons.prems obtain t ts' where t: "parse_toctree A defaults (path @ show_nat i) td = Inr t"
    and ts': "parse_toctrees A defaults path (Suc i) tds = Inr ts'" and e: "ts = t # ts'"
    by (auto split: sum.splits)
  from parse_toctree_structure[OF t] Cons.IH[OF ts'] e show ?case
    by (simp add: docs_data_of_def)
qed

lemma parse_doc_item_structure:
  assumes "parse_doc_item A data defaults path fk = Inr (doc, ds)"
  shows "map (entry_name A) ds = file_names doc \<and> doc_ok A doc
         \<and> dict_get data fk = PStr (docname doc)"
proof -
  from assms obtain sd ts where sd: "subtrees_data_of data path = Inr sd"
    and ts: "parse_toctrees A defaults path 0 sd = Inr ts"
    and doc: "Document_new (dict_get data fk) (dict_get data ''title'') ts = Some doc"
    and ds: "ds = docs_data_of sd"
    by (auto simp: parse_doc_item_def split: if_splits sum.splits option.splits)
  from doc have "subtrees doc = ts" "dict_get data fk = PStr (docname doc)"
    by (auto simp: Document_new_def split: pyval.splits)
  with parse_toctrees_structure[OF ts] ds show ?thesis
    by (simp add: file_names_def doc_ok_def)
qed

lemma docs_setitem_fresh:
  "sm_lookup sm k = None \<Longrightarrow> docs (sm_setitem sm k d) = docs sm @ [(k, d)]"
  by (simp add: sm_setitem_def sm_lookup_def update_fresh map_of_eq_None_iff)

lemma sm_lookup_None_iff: "sm_lookup sm k = None \<longleftrightarrow> k \<notin> fst ` set (docs sm)"
  by (simp add: sm_lookup_def map_of_eq_None_iff)

lemma parse_docs_list_structure:
  "parse_docs_list A ds sm defaults path = Inr sm' \<Longrightarrow> distinct (map fst (docs sm)) \<Longrightarrow>
     \<exists>ts. docs sm' = docs sm @ concat (map flat ts)
        \<and> map root_name ts = map (entry_name A) ds
        \<and> list_all (wf_tree A) ts
        \<and> distinct (map fst (docs sm'))
        \<and> root sm' = root sm \<and> meta sm' = meta sm"
proof (induction A ds sm defaults path arbitrary: sm' rule: parse_docs_list.induct)
  case (1 A sm defaults path)
  then have "sm' = sm" by (simp add: parse_docs_list.simps)
  with 1 show ?case by (intro exI[of _ "[]"]) simp
next
  case (2 A doc_data rest sm defaults path)
  from 2(3) obtain name where name: "map_of doc_data FILE_KEY = Some name"
    by (auto simp: parse_docs_list.simps split: option.splits)
  from 2(3) name have c: "sm_contains sm name = Inr False"
    by (auto simp: parse_docs_list.simps split: sum.splits bool.splits)
  let ?cp = "path @ py_str A name @ ''/''"
  from 2(3) name c obtain child ds' where
    p: "parse_doc_item A doc_data defaults ?cp FILE_KEY = Inr (child, ds')"
    by (auto simp: parse_docs_list.simps Let_def split: sum.splits)
  from 2(3) name c p obtain sm1 where
    r1: "parse_docs_list A ds' (sm_setitem sm (docname child) child) defaults ?cp = Inr sm1"
    and r2: "parse_docs_list A rest sm1 defaults path = Inr sm'"
    by (auto simp: parse_docs_list.simps Let_def split: sum.splits)
  note st = parse_doc_item_structure[OF p]
  from st name have nm: "name = PStr (docname child)" by (simp add: dict_get_def)
  from c nm have notin: "sm_lookup sm (docname child) = None"
    by (simp add: sm_contains_def)
  have en: "entry_name A doc_data = docname child"
    using st by (simp add: entry_name_def py_str_def)
  let ?sm0 = "sm_setitem sm (docname child) child"
  have d0: "docs ?sm0 = docs sm @ [(docname child, child)]"
    by (rule docs_setitem_fresh[OF notin])
  have dist0: "distinct (map fst (docs ?sm0))"
    using 2(4) notin by (simp add: d0 sm_lookup_None_iff)
  from 2(1)[OF name c refl refl p refl r1 dist0] obtain ts1 where
    a1: "docs sm1 = docs ?sm0 @ concat (map flat ts1)"
    and a2: "map root_name ts1 = map (entry_name A) ds'"
    and a3: "list_all (wf_tree A) ts1" and a4: "distinct (map fst (docs sm1))"
    and a5: "root sm1 = root ?sm0" "meta sm1 = meta ?sm0"
    by blast
  from 2(2)[OF name c refl refl p refl r1 r2 a4] obtain ts2 where
    b1: "docs sm' = docs sm1 @ concat (map flat ts2)"
    and b2: "map root_name ts2 = map (entry_name A) rest"
    and b3: "list_all (wf_tree A) ts2" and b4: "distinct (map fst (docs sm'))"
    and b5: "root sm' = root sm1" "meta sm' = meta sm1"
    by blast
  let ?T = "DTree child ts1"
  have wf: "wf_tree A ?T" using a2 a3 st by simp
  have "docs sm' = docs sm @ concat (map flat (?T # ts2))"
    by (simp add: b1 a1 d0)
  moreover have "map root_name (?T # ts2) = map (entry_name A) (doc_data # rest)"
    by (simp add: b2 en root_name_def)
  moreover have "list_all (wf_tree A) (?T # ts2)" using wf b3 by simp
  ultimately show ?case using b4 b5 a5 by (intro exI[of _ "?T # ts2"]) simp
qed

lemma parse_toc_data_structure:
  assumes "parse_toc_data A x = Inr sm"
  shows "\<exists>T. wf_tree A T \<and> docs sm = flat T \<and> root sm = root_doc T \<and> distinct (names T)"
proof -
  from assms obtain d where x: "x = PDict d"
    by (cases x) (simp_all add: parse_toc_data_def)
  let ?df = "case map_of d ''defaults'' of Some v \<Rightarrow> v | None \<Rightarrow> PDict []"
  from assms x obtain rdoc ds where
    p: "parse_doc_item A d ?df ''/'' ''root'' = Inr (rdoc, ds)"
    and r: "parse_docs_list A ds (SiteMap_new rdoc (dict_get d ''meta'')) ?df ''/'' = Inr sm"
    by (auto simp: parse_toc_data_def Let_def split: sum.splits)
  note st = parse_doc_item_structure[OF p]
  have "distinct (map fst (docs (SiteMap_new rdoc (dict_get d ''meta''))))"
    by (simp add: SiteMap_new_def)
  from parse_docs_list_structure[OF r this] obtain ts where
    a1: "docs sm = [(docname rdoc, rdoc)] @ concat (map flat ts)"
    and a2: "map root_name ts = map (entry_name A) ds"
    and a3: "list_all (wf_tree A) ts" and a4: "distinct (map fst (docs sm))"
    and a5: "root sm = rdoc"
    by (auto simp: SiteMap_new_def)
  let ?T = "DTree rdoc ts"
  have "wf_tree A ?T" using a2 a3 st by simp
  moreover have "docs sm = flat ?T" using a1 by simp
  moreover have "distinct (names ?T)" using a4 a1 by (simp add: names_def)
  ultimately show ?thesis using a5 by (intro exI[of _ ?T]) simp
qed

subsection \<open>Reading a serialized grouping and a serialized document back\<close>

lemma set_own_keywords:
  "(k, v) \<in> set (own_keywords g) \<longleftrightarrow> k \<in> set TOCTREE_OPTIONS \<and> map_of g k = Some v"
  by (force simp: own_keywords_def List.map_filter_def image_iff)

lemma parse_toctree_roundtrip:
  assumes ok: "toc_ok A t"
    and its: "map_of g DEFAULT_ITEMS_KEY = Some (PList xs)"
    and pi: "parse_items A loc 0 xs = Inr (items t)"
    and opts: "\<And>k. k \<in> set TOCTREE_OPTIONS \<Longrightarrow> map_of g k = map_of (toctree_options A True t) k"
  shows "\<exists>t'. parse_toctree A (PDict []) loc (PDict g) = Inr t' \<and> toc_eq t t'"
proof -
  from parse_items_files[OF pi] ok have "xs \<noteq> []" by (auto simp: toc_ok_def)
  then obtain x xs' where xs: "xs = x # xs'" by (cases xs) auto
  let ?kw = "own_keywords g"
  have valid: "list_all (\<lambda>(k, v). k \<in> set TOCTREE_OPTIONS \<and> field_valid A k v) ?kw"
    unfolding list_all_iff
  proof (clarify, rule conjI)
    fix k v assume kv: "(k, v) \<in> set ?kw"
    then show k: "k \<in> set TOCTREE_OPTIONS" by (simp add: set_own_keywords)
    from kv opts[OF k] have "map_of (toctree_options A True t) k = Some v"
      by (simp add: set_own_keywords)
    then have v: "v = getattr t k" and ne: "\<not> py_eq (getattr t k) (field_default A k)"
      by (auto simp: map_of_toctree_options split: if_splits)
    from ne py_eq_refl[of "field_default A k"] have "getattr t k \<noteq> field_default A k" by auto
    with ok k v show "field_valid A k v" by (auto simp: toc_ok_def list_all_iff)
  qed
  let ?t' = "\<lparr> items = items t,
                caption = kw_value A ?kw ''caption'',
                hidden = kw_value A ?kw ''hidden'',
                maxdepth = kw_value A ?kw ''maxdepth'',
                numbered = kw_value A ?kw ''numbered'',
                reversed = kw_value A ?kw ''reversed'',
                titlesonly = kw_value A ?kw ''titlesonly'' \<rparr>"
  have new: "TocTree_new A (items t) ?kw = Some ?t'"
    using valid by (simp add: TocTree_new_def)
  have p: "parse_toctree A (PDict []) loc (PDict g) = Inr ?t'"
    using its xs pi new
    by (simp add: parse_toctree_def seq_elems_def merge_defaults_def)
  have "py_eq (getattr t k) (getattr ?t' k)" if k: "k \<in> set TOCTREE_OPTIONS" for k
  proof -
    have "getattr ?t' k = kw_value A ?kw k" by (rule getattr_TocTree_new[OF new k])
    also have "\<dots> = (case map_of (toctree_options A True t) k of
                        Some v \<Rightarrow> v | None \<Rightarrow> field_default A k)"
      using k opts[OF k] by (simp add: kw_value_def map_of_own_keywords)
    finally show ?thesis
      using k by (simp add: map_of_toctree_options py_eq_refl)
  qed
  then have "toc_eq t ?t'" by (simp add: toc_eq_def list_all_iff)
  with p show ?thesis by blast
qed

lemma toc_src_toc_dict:
  "(\<And>loc i. parse_items A loc i xs = Inr (items t)) \<Longrightarrow> toc_src A t (toc_dict A t xs) xs"
  using items_key_not_option
  by (auto simp: toc_src_def toc_dict_def update_conv')

lemma file_entries_toc_src: "toc_src A t s xs \<Longrightarrow> file_entries s = concat (map entry_of xs)"
  by (auto simp: toc_src_def file_entries_def dict_get_def seq_elems_def)

lemma parse_toctrees_roundtrip:
  assumes "list_all2 (\<lambda>t (s, xs). toc_src A t s xs) ts sxs" and "list_all (toc_ok A) ts"
  shows "\<exists>ts'. parse_toctrees A (PDict []) path i (map fst sxs) = Inr ts' \<and> list_all2 toc_eq ts ts'"
  using assms
proof (induction ts sxs arbitrary: i rule: list_all2_induct)
  case Nil
  then show ?case by simp
next
  case (Cons t ts sx sxs)
  obtain s xs where sx: "sx = (s, xs)" by (cases sx)
  from Cons(1) sx obtain g where g: "s = PDict g"
    and a: "map_of g DEFAULT_ITEMS_KEY = Some (PList xs)"
    and b: "parse_items A (path @ show_nat i) 0 xs = Inr (items t)"
    and c: "\<And>k. k \<in> set TOCTREE_OPTIONS \<Longrightarrow> map_of g k = map_of (toctree_options A True t) k"
    by (auto simp: toc_src_def)
  from Cons(4) have ok: "toc_ok A t" and oks: "list_all (toc_ok A) ts" by auto
  from parse_toctree_roundtrip[OF ok a b c] obtain t' where
    t': "parse_toctree A (PDict []) (path @ show_nat i) (PDict g) = Inr t'" and e: "toc_eq t t'"
    by blast
  from Cons(3)[OF oks, of "Suc i"] obtain ts' where
    ts': "parse_toctrees A (PDict []) path (Suc i) (map fst sxs) = Inr ts'"
    and es: "list_all2 toc_eq ts ts'" by blast
  from t' ts' e es g sx show ?case by simp
qed

lemma docs_data_of_toc_src:
  assumes "list_all2 (\<lambda>t (s, xs). toc_src A t s xs) ts sxs"
  shows "docs_data_of (map fst sxs) = concat (map entry_of (concat (map snd sxs)))"
  using assms
  by (induction ts sxs rule: list_all2_induct)
     (auto simp: docs_data_of_def file_entries_toc_src)

lemma distinct_toctree_options: "distinct (map fst (toctree_options A skip t))"
proof -
  have "distinct TOCTREE_OPTIONS" by (simp add: TOCTREE_OPTIONS_def)
  then show ?thesis by (simp add: toctree_options_def comp_def distinct_map_filter)
qed

lemma map_of_rev_distinct: "distinct (map fst xs) \<Longrightarrow> map_of (rev xs) = map_of xs"
  by (subst map_of_inject_set) (simp_all add: rev_map[symmetric])

lemma apply_shorthand_many:
  "length zs \<noteq> 1 \<Longrightarrow>
     apply_shorthand (AList.update DEFAULT_SUBTREES_KEY (PList zs) hdr)
       = AList.update DEFAULT_SUBTREES_KEY (PList zs) hdr"
  by (cases zs; cases "tl zs")
     (auto simp: apply_shorthand_def update_conv' split: pyval.splits list.splits)

lemma doc_dict_shape:
  assumes fk: "fk = ''root'' \<or> fk = ''file''"
    and rel: "list_all2 (\<lambda>t xs. \<forall>loc i. parse_items A loc i xs = Inr (items t)) (subtrees d) xss"
  shows "\<exists>sxs. subtrees_data_of (doc_dict A fk d xss) path = Inr (map fst sxs)
           \<and> list_all2 (\<lambda>t (s, xs). toc_src A t s xs) (subtrees d) sxs
           \<and> map snd sxs = xss
           \<and> map_of (doc_dict A fk d xss) fk = Some (PStr (docname d))
           \<and> dict_get (doc_dict A fk d xss) ''title'' = title_val d"
proof -
  let ?hdr = "doc_header fk d"
  note mh = map_of_doc_header[OF fk, of d]
  have fkne: "fk \<noteq> DEFAULT_SUBTREES_KEY" "fk \<noteq> DEFAULT_ITEMS_KEY" "fk \<noteq> ''options''"
    "fk \<noteq> ''title''"
    using fk by (auto simp: key_defs)
  have tv: "dict_get m ''title'' = title_val d" if "map_of m ''title'' = map_option PStr (title d)"
    for m using that by (simp add: dict_get_def title_val_def split: option.splits)
  consider (leaf) "subtrees d = []" | (one) t where "subtrees d = [t]"
    | (many) "length (subtrees d) \<noteq> 1" "subtrees d \<noteq> []"
    by (cases "subtrees d"; cases "tl (subtrees d)") auto
  then show ?thesis
  proof cases
    case leaf
    with rel have "xss = []" by simp
    have "subtrees_data_of ?hdr path = Inr []"
      using fkne by (simp add: subtrees_data_of_def has_key_def mh key_defs)
    with leaf \<open>xss = []\<close> tv[of ?hdr] fkne show ?thesis
      by (intro exI[of _ "[]"]) (simp add: doc_dict_def mh)
  next
    case one
    with rel obtain xs where xss: "xss = [xs]"
      and pi: "\<And>loc i. parse_items A loc i xs = Inr (items t)"
      by (auto simp: list_all2_Cons1)
    let ?opts = "toctree_options A True t"
    let ?data2 = "AList.update DEFAULT_ITEMS_KEY (PList xs) (AList.delete DEFAULT_SUBTREES_KEY ?hdr)"
    let ?y = "if ?opts \<noteq> [] then AList.update ''options'' (PDict ?opts) ?data2 else ?data2"
    have y: "doc_dict A fk d xss = ?y"
      using one xss apply_shorthand_single[of "PList xs" A True t ?hdr]
      by (simp add: doc_dict_def toc_dict_def Let_def)
    have m: "map_of ?y k =
               (if k = ''options'' then (if ?opts = [] then None else Some (PDict ?opts))
                else if k = DEFAULT_ITEMS_KEY then Some (PList xs)
                else if k = DEFAULT_SUBTREES_KEY then None else map_of ?hdr k)" for k
      using fkne by (auto simp: update_conv' delete_conv' mh key_defs)
    let ?g = "if ?opts = [] then [(DEFAULT_ITEMS_KEY, PList xs)]
              else dict_merge [(DEFAULT_ITEMS_KEY, PList xs)] ?opts"
    have sd: "subtrees_data_of ?y path = Inr [PDict ?g]"
      unfolding subtrees_data_of_def has_key_def dict_get_def m
      by (simp add: key_defs)
    have gi: "map_of ?g DEFAULT_ITEMS_KEY = Some (PList xs)"
      using map_of_toctree_options_items[of A True t]
      by (simp add: map_of_dict_merge map_of_rev_distinct[OF distinct_toctree_options])
    have gk: "map_of ?g k = map_of ?opts k" if "k \<in> set TOCTREE_OPTIONS" for k
      using that items_key_not_option
      by (auto simp: map_of_dict_merge map_of_rev_distinct[OF distinct_toctree_options]
          split: option.splits)
    have src: "toc_src A t (PDict ?g) xs"
      unfolding toc_src_def using gi gk pi by blast
    have mt: "map_of ?y ''title'' = map_option PStr (title d)"
      unfolding m by (simp add: mh key_defs)
    have mf: "map_of ?y fk = Some (PStr (docname d))"
      unfolding m using fkne by (simp add: mh)
    show ?thesis
      unfolding y
      using sd src one xss tv[OF mt] mf
      by (intro exI[of _ "[(PDict ?g, xs)]"]) simp
  next
    case many
    let ?zs = "map (\<lambda>(t, xs). toc_dict A t xs) (zip (subtrees d) xss)"
    from rel have len: "length xss = length (subtrees d)" by (simp add: list_all2_lengthD)
    have lz: "length ?zs \<noteq> 1" "?zs \<noteq> []" using many len by auto
    let ?y = "AList.update DEFAULT_SUBTREES_KEY (PList ?zs) ?hdr"
    have y: "doc_dict A fk d xss = ?y"
      using many apply_shorthand_many[OF lz(1)] by (simp add: doc_dict_def)
    have m: "map_of ?y k = (if k = DEFAULT_SUBTREES_KEY then Some (PList ?zs) else map_of ?hdr k)"
      for k by (simp add: update_conv')
    obtain z zs' where zz: "?zs = z # zs'" using lz(2) by (cases ?zs) auto
    have sd: "subtrees_data_of ?y path = Inr ?zs"
      unfolding subtrees_data_of_def has_key_def dict_get_def m
      using fkne zz by (simp add: mh key_defs seq_elems_def)
    let ?sxs = "map (\<lambda>(t, xs). (toc_dict A t xs, xs)) (zip (subtrees d) xss)"
    have f: "map fst ?sxs = ?zs" by (simp add: comp_def case_prod_unfold)
    have s: "map snd ?sxs = xss" using len by (simp add: comp_def case_prod_unfold)
    have r: "list_all2 (\<lambda>t (s, xs). toc_src A t s xs) (subtrees d) ?sxs"
      unfolding list_all2_conv_all_nth
      using rel[unfolded list_all2_conv_all_nth] len
      by (auto intro: toc_src_toc_dict)
    have mt: "map_of ?y ''title'' = map_option PStr (title d)"
      unfolding m by (simp add: mh key_defs)
    have mf: "map_of ?y fk = Some (PStr (docname d))"
      unfolding m using fkne by (simp add: mh)
    show ?thesis
    proof (intro exI[of _ ?sxs] conjI)
      show "subtrees_data_of (doc_dict A fk d xss) path = Inr (map fst ?sxs)"
        unfolding y f by (rule sd)
      show "list_all2 (\<lambda>t (s, xs). toc_src A t s xs) (subtrees d) ?sxs" by (rule r)
      show "map snd ?sxs = xss" by (rule s)
      show "map_of (doc_dict A fk d xss) fk = Some (PStr (docname d))"
        unfolding y by (rule mf)
      show "dict_get (doc_dict A fk d xss) ''title'' = title_val d"
        unfolding y by (rule tv[OF mt])
    qed
  qed
qed

lemma doc_dict_keys:
  assumes "fk = ''root'' \<or> fk = ''file''"
    and "k \<notin> {fk, ''title'', DEFAULT_ITEMS_KEY, DEFAULT_SUBTREES_KEY, ''options''}"
  shows "map_of (doc_dict A fk d xss) k = None"
  using assms(2)
  by (simp add: doc_dict_def map_of_apply_shorthand_other update_conv'
      map_of_doc_header[OF assms(1)])

lemma Document_new_title_val:
  "Document_new (PStr n) (title_val d) ts = Some \<lparr> docname = n, title = title d, subtrees = ts \<rparr>"
  by (simp add: Document_new_def title_val_def split: option.splits)

lemma parse_doc_item_roundtrip:
  assumes fk: "fk = ''root'' \<or> fk = ''file''"
    and rel: "list_all2 (\<lambda>t xs. \<forall>loc i. parse_items A loc i xs = Inr (items t)) (subtrees d) xss"
    and ok: "doc_ok A d"
  shows "\<exists>d'. parse_doc_item A (doc_dict A fk d xss) (PDict []) path fk
                 = Inr (d', concat (map entry_of (concat xss)))
              \<and> doc_eq d d'"
proof -
  let ?y = "doc_dict A fk d xss"
  from doc_dict_shape[OF fk rel, of path] obtain sxs where
    sd: "subtrees_data_of ?y path = Inr (map fst sxs)"
    and r: "list_all2 (\<lambda>t (s, xs). toc_src A t s xs) (subtrees d) sxs"
    and s: "map snd sxs = xss"
    and mfk: "map_of ?y fk = Some (PStr (docname d))"
    and tv: "dict_get ?y ''title'' = title_val d"
    by blast
  from ok have oks: "list_all (toc_ok A) (subtrees d)" by (simp add: doc_ok_def)
  from parse_toctrees_roundtrip[OF r oks, of path 0] obtain ts' where
    ts': "parse_toctrees A (PDict []) path 0 (map fst sxs) = Inr ts'"
    and es: "list_all2 toc_eq (subtrees d) ts'"
    by blast
  let ?d' = "\<lparr> docname = docname d, title = title d, subtrees = ts' \<rparr>"
  have hk: "has_key ?y fk" using mfk by (simp add: has_key_def)
  have dg: "dict_get ?y fk = PStr (docname d)" using mfk by (simp add: dict_get_def)
  have dd: "docs_data_of (map fst sxs) = concat (map entry_of (concat xss))"
    using docs_data_of_toc_src[OF r] s by simp
  have "parse_doc_item A ?y (PDict []) path fk = Inr (?d', concat (map entry_of (concat xss)))"
    by (simp add: parse_doc_item_def hk sd ts' dg tv Document_new_title_val dd)
  moreover have "doc_eq d ?d'" using es by (simp add: doc_eq_def)
  ultimately show ?thesis by blast
qed

lemma file_entry_parses:
  assumes "map_of e FILE_KEY = Some (PStr n)" and "map_of e GLOB_KEY = None"
    and "map_of e URL_KEY = None"
  shows "parse_item_entry A loc (PDict e) = Inr (FileItem n)"
proof -
  have lk: "link_keys_of e = [FILE_KEY]"
    using assms by (simp add: link_keys_of_def has_key_def)
  have ik: "incompatible_keys e [FILE_KEY] = None"
    by (simp add: incompatible_keys_def key_defs)
  show ?thesis
    using assms(1) by (simp add: parse_item_entry_def lk ik dict_get_def py_str_def)
qed

lemma glob_entry_parses:
  "parse_item_entry A loc (PDict [(GLOB_KEY, PStr g)]) = Inr (GlobItem g)"
  by (simp add: parse_item_entry_def link_keys_of_def incompatible_keys_def has_key_def
      dict_get_def py_str_def key_defs)

subsection \<open>Serializing a tree\<close>

lemma url_entry_parses:
  "parse_item_entry A loc (PDict [(URL_KEY, PStr u)]) = Inr (UrlItem u None)"
  "parse_item_entry A loc (PDict [(URL_KEY, PStr u), (''title'', PStr t)]) = Inr (UrlItem u (Some t))"
  by (simp_all add: parse_item_entry_def link_keys_of_def incompatible_keys_def has_key_def
      dict_get_def UrlItem_new_def key_defs)

lemma items_roundtrip:
  assumes "\<And>c. c \<in> set cs \<Longrightarrow> ser_ok A sm c"
    and "\<And>c. c \<in> set cs \<Longrightarrow> sm_lookup sm (root_name c) = Some (root_doc c)"
    and "map root_name cs = file_names_of its"
    and "distinct (concat (map names cs))"
    and "P \<inter> set (concat (map names cs)) = {}"
  shows "\<exists>xs. items_to_list A sm True P its = Inr (xs, P \<union> set (concat (map names cs)))
           \<and> (\<forall>loc i. parse_items A loc i xs = Inr its)
           \<and> list_all2 (child_rel A) cs (concat (map entry_of xs))"
  using assms
proof (induction its arbitrary: cs P)
  case Nil
  then show ?case by simp
next
  case (Cons it its)
  show ?case
  proof (cases it)
    case (FileItem n)
    with Cons.prems(3) obtain c cs' where cs: "cs = c # cs'" and n: "root_name c = n"
      and nm': "map root_name cs' = file_names_of its"
      by (cases cs) auto
    have lk: "sm_lookup sm n = Some (root_doc c)" using Cons.prems(2)[of c] cs n by simp
    have dP: "P \<inter> set (names c) = {}" using Cons.prems(5) cs by auto
    from Cons.prems(1)[of c] cs dP obtain y where
      y: "docitem_to_dict A sm True FILE_KEY P (root_doc c) = Inr (y, P \<union> set (names c))"
      and rty: "rt A c FILE_KEY y" and yf: "map_of y FILE_KEY = Some (PStr (root_name c))"
      and yg: "map_of y GLOB_KEY = None" and yu: "map_of y URL_KEY = None"
      unfolding ser_ok_def by auto
    let ?P1 = "P \<union> set (names c)"
    have d1: "distinct (concat (map names cs'))" using Cons.prems(4) cs by simp
    have d2: "?P1 \<inter> set (concat (map names cs')) = {}"
      using Cons.prems(4,5) cs by auto
    have s': "\<And>c. c \<in> set cs' \<Longrightarrow> ser_ok A sm c"
      and l': "\<And>c. c \<in> set cs' \<Longrightarrow> sm_lookup sm (root_name c) = Some (root_doc c)"
      using Cons.prems(1,2) cs by auto
    from Cons.IH[OF s' l' nm' d1 d2] obtain xs where
      xs: "items_to_list A sm True ?P1 its = Inr (xs, ?P1 \<union> set (concat (map names cs')))"
      and px: "\<And>loc i. parse_items A loc i xs = Inr its"
      and cr: "list_all2 (child_rel A) cs' (concat (map entry_of xs))"
      by auto
    have pe: "parse_item_entry A loc (PDict y) = Inr (FileItem n)" for loc
      using file_entry_parses[OF yf yg yu] n by simp
    have hk: "has_key y FILE_KEY" using yf by (simp add: has_key_def)
    have "items_to_list A sm True P (it # its)
            = Inr (PDict y # xs, P \<union> set (concat (map names cs)))"
      using FileItem lk y xs cs by (simp add: Un_assoc)
    moreover have "parse_items A loc i (PDict y # xs) = Inr (it # its)" for loc i
      using pe px FileItem by simp
    moreover have "list_all2 (child_rel A) cs (concat (map entry_of (PDict y # xs)))"
      using cr rty yf hk cs by (simp add: child_rel_def)
    ultimately show ?thesis by blast
  next
    case (GlobItem g)
    with Cons.prems(3) have nm': "map root_name cs = file_names_of its" by simp
    from Cons.IH[OF Cons.prems(1,2) nm' Cons.prems(4,5)] obtain xs where
      xs: "items_to_list A sm True P its = Inr (xs, P \<union> set (concat (map names cs)))"
      and px: "\<And>loc i. parse_items A loc i xs = Inr its"
      and cr: "list_all2 (child_rel A) cs (concat (map entry_of xs))"
      by auto
    let ?x = "PDict [(GLOB_KEY, PStr g)]"
    have "items_to_list A sm True P (it # its) = Inr (?x # xs, P \<union> set (concat (map names cs)))"
      using GlobItem xs by simp
    moreover have "parse_items A loc i (?x # xs) = Inr (it # its)" for loc i
      using px GlobItem by (simp add: glob_entry_parses)
    moreover have "list_all2 (child_rel A) cs (concat (map entry_of (?x # xs)))"
      using cr by (simp add: has_key_def key_defs)
    ultimately show ?thesis by blast
  next
    case (UrlItem u t)
    with Cons.prems(3) have nm': "map root_name cs = file_names_of its" by simp
    from Cons.IH[OF Cons.prems(1,2) nm' Cons.prems(4,5)] obtain xs where
      xs: "items_to_list A sm True P its = Inr (xs, P \<union> set (concat (map names cs)))"
      and px: "\<And>loc i. parse_items A loc i xs = Inr its"
      and cr: "list_all2 (child_rel A) cs (concat (map entry_of xs))"
      by auto
    let ?x = "case t of Some tt \<Rightarrow> PDict [(URL_KEY, PStr u), (''title'', PStr tt)]
                      | None \<Rightarrow> PDict [(URL_KEY, PStr u)]"
    have "items_to_list A sm True P (it # its) = Inr (?x # xs, P \<union> set (concat (map names cs)))"
      using UrlItem xs by (simp split: option.splits)
    moreover have "parse_items A loc i (?x # xs) = Inr (it # its)" for loc i
      using px UrlItem by (simp add: url_entry_parses split: option.splits)
    moreover have "list_all2 (child_rel A) cs (concat (map entry_of (?x # xs)))"
      using cr by (simp add: has_key_def key_defs split: option.splits)
    ultimately show ?thesis by blast
  qed
qed

lemma subtrees_roundtrip:
  assumes "\<And>c. c \<in> set cs \<Longrightarrow> ser_ok A sm c"
    and "\<And>c. c \<in> set cs \<Longrightarrow> sm_lookup sm (root_name c) = Some (root_doc c)"
    and "map root_name cs = file_names_of (concat (map items ts))"
    and "distinct (concat (map names cs))"
    and "P \<inter> set (concat (map names cs)) = {}"
  shows "\<exists>xss. subtrees_to_list A sm True P ts
                 = Inr (map (\<lambda>(t, xs). toc_dict A t xs) (zip ts xss),
                        P \<union> set (concat (map names cs)))
           \<and> list_all2 (\<lambda>t xs. \<forall>loc i. parse_items A loc i xs = Inr (items t)) ts xss
           \<and> list_all2 (child_rel A) cs (concat (map entry_of (concat xss)))"
  using assms
proof (induction ts arbitrary: cs P)
  case Nil
  then show ?case by simp
next
  case (Cons t ts)
  from Cons.prems(3) obtain cs1 cs2 where cs: "cs = cs1 @ cs2"
    and n1: "map root_name cs1 = file_names_of (items t)"
    and n2: "map root_name cs2 = file_names_of (concat (map items ts))"
    by (auto simp: map_eq_append_conv)
  have d1: "distinct (concat (map names cs1))" and d2: "distinct (concat (map names cs2))"
    and d12: "set (concat (map names cs1)) \<inter> set (concat (map names cs2)) = {}"
    using Cons.prems(4) cs by auto
  have p1: "P \<inter> set (concat (map names cs1)) = {}" using Cons.prems(5) cs by auto
  have s1: "\<And>c. c \<in> set cs1 \<Longrightarrow> ser_ok A sm c"
    and l1: "\<And>c. c \<in> set cs1 \<Longrightarrow> sm_lookup sm (root_name c) = Some (root_doc c)"
    and s2: "\<And>c. c \<in> set cs2 \<Longrightarrow> ser_ok A sm c"
    and l2: "\<And>c. c \<in> set cs2 \<Longrightarrow> sm_lookup sm (root_name c) = Some (root_doc c)"
    using Cons.prems(1,2) cs by auto
  from items_roundtrip[OF s1 l1 n1 d1 p1] obtain xs where
    xs: "items_to_list A sm True P (items t) = Inr (xs, P \<union> set (concat (map names cs1)))"
    and px: "\<And>loc i. parse_items A loc i xs = Inr (items t)"
    and cr1: "list_all2 (child_rel A) cs1 (concat (map entry_of xs))"
    by auto
  let ?P1 = "P \<union> set (concat (map names cs1))"
  have p2: "?P1 \<inter> set (concat (map names cs2)) = {}" using Cons.prems(5) cs d12 by auto
  from Cons.IH[OF s2 l2 n2 d2 p2] obtain xss where
    st: "subtrees_to_list A sm True ?P1 ts
           = Inr (map (\<lambda>(t, xs). toc_dict A t xs) (zip ts xss),
                  ?P1 \<union> set (concat (map names cs2)))"
    and rel: "list_all2 (\<lambda>t xs. \<forall>loc i. parse_items A loc i xs = Inr (items t)) ts xss"
    and cr2: "list_all2 (child_rel A) cs2 (concat (map entry_of (concat xss)))"
    by auto
  have "subtrees_to_list A sm True P (t # ts)
          = Inr (map (\<lambda>(t, xs). toc_dict A t xs) (zip (t # ts) (xs # xss)),
                 P \<union> set (concat (map names cs)))"
    using xs st cs by (simp add: toc_dict_def Un_assoc)
  moreover have "list_all2 (\<lambda>t xs. \<forall>loc i. parse_items A loc i xs = Inr (items t))
                   (t # ts) (xs # xss)"
    using px rel by simp
  moreover have "list_all2 (child_rel A) cs (concat (map entry_of (concat (xs # xss))))"
    using cr1 cr2 cs by (simp add: list_all2_appendI)
  ultimately show ?case by blast
qed

lemma names_DTree: "names (DTree d cs) = docname d # concat (map names cs)"
proof -
  have "(\<lambda>x. map fst (flat x)) = names" by (rule ext) (simp add: names_def)
  then show ?thesis by (simp add: names_def map_concat comp_def)
qed

lemma distinct_concat_mem:
  "distinct (concat xss) \<Longrightarrow> xs \<in> set xss \<Longrightarrow> distinct xs"
  by (induction xss) auto

lemma root_in_flat: "(root_name c, root_doc c) \<in> set (flat c)"
  by (cases c) (simp add: root_name_def)

lemma node_serializes:
  assumes IH: "\<And>c. c \<in> set cs \<Longrightarrow> ser_ok A sm c"
    and nm: "map root_name cs = file_names d" and ok: "doc_ok A d"
    and look: "\<And>c. c \<in> set cs \<Longrightarrow> sm_lookup sm (root_name c) = Some (root_doc c)"
    and dist: "distinct (names (DTree d cs))"
    and disj: "P \<inter> set (names (DTree d cs)) = {}"
    and fk: "fk = ''root'' \<or> fk = ''file''"
  shows "\<exists>y. docitem_to_dict A sm True fk P d = Inr (y, P \<union> set (names (DTree d cs)))
           \<and> rt A (DTree d cs) fk y
           \<and> map_of y fk = Some (PStr (docname d))
           \<and> (\<forall>k. k \<notin> {fk, ''title'', DEFAULT_ITEMS_KEY, DEFAULT_SUBTREES_KEY, ''options''}
                  \<longrightarrow> map_of y k = None)"
proof -
  let ?P0 = "insert (docname d) P"
  have notin: "docname d \<notin> P" using disj by (auto simp: names_DTree)
  have d1: "distinct (concat (map names cs))" using dist by (simp add: names_DTree)
  have p0: "?P0 \<inter> set (concat (map names cs)) = {}"
    using dist disj by (auto simp: names_DTree)
  from subtrees_roundtrip[OF IH look nm[unfolded file_names_def] d1 p0] obtain xss where
    st: "subtrees_to_list A sm True ?P0 (subtrees d)
           = Inr (map (\<lambda>(t, xs). toc_dict A t xs) (zip (subtrees d) xss),
                  ?P0 \<union> set (concat (map names cs)))"
    and rel: "list_all2 (\<lambda>t xs. \<forall>loc i. parse_items A loc i xs = Inr (items t)) (subtrees d) xss"
    and cr: "list_all2 (child_rel A) cs (concat (map entry_of (concat xss)))"
    by blast
  let ?y = "doc_dict A fk d xss"
  have leaf: "cs = []" if "subtrees d = []"
    using nm that by (simp add: file_names_def)
  have pe: "?P0 \<union> set (concat (map names cs)) = P \<union> set (names (DTree d cs))"
    by (auto simp: names_DTree)
  have ser: "docitem_to_dict A sm True fk P d = Inr (?y, P \<union> set (names (DTree d cs)))"
  proof (cases "subtrees d = []")
    case True
    with leaf notin show ?thesis
      by (simp add: docitem_to_dict.simps[of A sm True fk P d] doc_dict_def names_DTree)
  next
    case False
    with notin st pe show ?thesis
      by (simp add: docitem_to_dict.simps[of A sm True fk P d] doc_dict_def)
  qed
  have cr': "list_all2 (\<lambda>c e. rt A c FILE_KEY e \<and> map_of e FILE_KEY = Some (PStr (root_name c)))
               cs (concat (map entry_of (concat xss)))"
    using cr by (rule list_all2_mono) (simp add: child_rel_def)
  have rty: "rt A (DTree d cs) fk ?y"
    using parse_doc_item_roundtrip[OF fk rel ok] cr' by (intro rtI) auto
  from doc_dict_shape[OF fk rel, of "[]"] have mf: "map_of ?y fk = Some (PStr (docname d))"
    by blast
  from ser rty mf doc_dict_keys[OF fk, of _ A d xss] show ?thesis by blast
qed

subsection \<open>Parsing the serialized tree\<close>

lemma tree_serializes:
  "wf_tree A T \<Longrightarrow> distinct (names T) \<Longrightarrow> (\<forall>kd \<in> set (flat T). sm_lookup sm (fst kd) = Some (snd kd))
     \<Longrightarrow> ser_ok A sm T"
proof (induction T)
  case (DTree d cs)
  have sub: "set (flat c) \<subseteq> set (flat (DTree d cs))" if "c \<in> set cs" for c
    using that by auto
  have IH: "ser_ok A sm c" if c: "c \<in> set cs" for c
  proof (rule DTree.IH[OF c])
    show "wf_tree A c" using DTree.prems(1) c by (simp add: list_all_iff)
    show "distinct (names c)" using DTree.prems(2) c
      by (auto simp: names_DTree intro: distinct_concat_mem[of "map names cs"])
    show "\<forall>kd \<in> set (flat c). sm_lookup sm (fst kd) = Some (snd kd)"
      using DTree.prems(3) sub[OF c] by blast
  qed
  have look: "sm_lookup sm (root_name c) = Some (root_doc c)" if c: "c \<in> set cs" for c
    using DTree.prems(3) sub[OF c] root_in_flat[of c] by fastforce
  from DTree.prems(1) have nm: "map root_name cs = file_names d" and ok: "doc_ok A d" by auto
  show ?case
    unfolding ser_ok_def
  proof (intro allI impI)
    fix P assume disj: "P \<inter> set (names (DTree d cs)) = {}"
    have fk: "FILE_KEY = ''root'' \<or> FILE_KEY = ''file''" by (simp add: key_defs)
    from node_serializes[OF IH nm ok look DTree.prems(2) disj fk] obtain y where
      y: "docitem_to_dict A sm True FILE_KEY P d = Inr (y, P \<union> set (names (DTree d cs)))"
      and r: "rt A (DTree d cs) FILE_KEY y" and m: "map_of y FILE_KEY = Some (PStr (docname d))"
      and k: "\<And>k. k \<notin> {FILE_KEY, ''title'', DEFAULT_ITEMS_KEY, DEFAULT_SUBTREES_KEY, ''options''}
                  \<Longrightarrow> map_of y k = None"
      by blast
    have "map_of y GLOB_KEY = None" "map_of y URL_KEY = None"
      by (rule k, simp add: key_defs)+
    with y r m show "\<exists>y. docitem_to_dict A sm True FILE_KEY P (root_doc (DTree d cs))
                           = Inr (y, P \<union> set (names (DTree d cs)))
          \<and> rt A (DTree d cs) FILE_KEY y
          \<and> map_of y FILE_KEY = Some (PStr (root_name (DTree d cs)))
          \<and> map_of y GLOB_KEY = None \<and> map_of y URL_KEY = None"
      by (simp add: root_name_def)
  qed
qed

lemma parse_docs_list_Cons_split:
  "parse_docs_list A (e # es) sm df path =
     (case parse_docs_list A [e] sm df path of
        Inl x \<Rightarrow> Inl x
      | Inr sm1 \<Rightarrow> parse_docs_list A es sm1 df path)"
  by (simp add: parse_docs_list.simps Let_def split: option.splits sum.splits bool.splits prod.splits)

lemma entry_eq_names: "list_all2 entry_eq xs ys \<Longrightarrow> map fst ys = map fst xs"
  by (induction xs ys rule: list_all2_induct) (auto simp: entry_eq_def)

lemma reparse_list:
  assumes "\<And>c e sm2 path. c \<in> set cs \<Longrightarrow> child_rel A c e \<Longrightarrow>
             distinct (map fst (docs sm2) @ names c) \<Longrightarrow>
             \<exists>sm3 new. parse_docs_list A [e] sm2 (PDict []) path = Inr sm3 \<and> root sm3 = root sm2
                \<and> docs sm3 = docs sm2 @ new \<and> list_all2 entry_eq (flat c) new"
    and "list_all2 (child_rel A) cs ys"
    and "distinct (map fst (docs sm2) @ concat (map names cs))"
  shows "\<exists>sm3 new. parse_docs_list A ys sm2 (PDict []) path = Inr sm3 \<and> root sm3 = root sm2
           \<and> docs sm3 = docs sm2 @ new \<and> list_all2 entry_eq (concat (map flat cs)) new"
  using assms(2,1,3)
proof (induction cs ys arbitrary: sm2 rule: list_all2_induct)
  case Nil
  then show ?case by (simp add: parse_docs_list.simps)
next
  case (Cons c cs e es)
  have dc: "distinct (map fst (docs sm2) @ names c)" using Cons.prems(2) by auto
  from Cons.prems(1)[of c e sm2 path] Cons.hyps(1) dc obtain sm3 new1 where
    p1: "parse_docs_list A [e] sm2 (PDict []) path = Inr sm3" and r1: "root sm3 = root sm2"
    and d1: "docs sm3 = docs sm2 @ new1" and e1: "list_all2 entry_eq (flat c) new1"
    by auto
  have n1: "map fst new1 = names c" using entry_eq_names[OF e1] by (simp add: names_def)
  have dd: "distinct (map fst (docs sm3) @ concat (map names cs))"
    using Cons.prems(2) by (simp add: d1 n1)
  have single: "\<And>c e sm2 path. c \<in> set cs \<Longrightarrow> child_rel A c e \<Longrightarrow>
             distinct (map fst (docs sm2) @ names c) \<Longrightarrow>
             \<exists>sm3 new. parse_docs_list A [e] sm2 (PDict []) path = Inr sm3 \<and> root sm3 = root sm2
                \<and> docs sm3 = docs sm2 @ new \<and> list_all2 entry_eq (flat c) new"
    using Cons.prems(1) by simp
  from Cons.IH[OF single dd] obtain sm4 new2 where
    p2: "parse_docs_list A es sm3 (PDict []) path = Inr sm4" and r2: "root sm4 = root sm3"
    and d2: "docs sm4 = docs sm3 @ new2" and e2: "list_all2 entry_eq (concat (map flat cs)) new2"
    by blast
  have "parse_docs_list A (e # es) sm2 (PDict []) path = Inr sm4"
    by (subst parse_docs_list_Cons_split) (simp add: p1 p2)
  moreover have "docs sm4 = docs sm2 @ (new1 @ new2)" by (simp add: d2 d1)
  moreover have "list_all2 entry_eq (concat (map flat (c # cs))) (new1 @ new2)"
    using e1 e2 by (simp add: list_all2_appendI)
  ultimately show ?case using r1 r2 by (intro exI[of _ sm4] exI[of _ "new1 @ new2"]) simp
qed

inductive_cases rt_DTreeE: "rt A (DTree d cs) fk y"

lemma rt_DTreeD:
  assumes "rt A (DTree d cs) fk y"
  shows "\<exists>ys. (\<forall>path. \<exists>d'. parse_doc_item A y (PDict []) path fk = Inr (d', ys) \<and> doc_eq d d')
           \<and> list_all2 (child_rel A) cs ys"
  using assms
proof (rule rt_DTreeE)
  fix ys
  assume a: "\<And>path. \<exists>d'. parse_doc_item A y (PDict []) path fk = Inr (d', ys) \<and> doc_eq d d'"
    and b: "list_all2 (\<lambda>c e. rt A c FILE_KEY e \<and> map_of e FILE_KEY = Some (PStr (root_name c))) cs ys"
  from b have "list_all2 (child_rel A) cs ys"
    by (rule list_all2_mono) (simp add: child_rel_def)
  with a show ?thesis by blast
qed

lemma reparse_tree:
  "child_rel A T e \<Longrightarrow> distinct (map fst (docs sm2) @ names T) \<Longrightarrow>
     \<exists>sm3 new. parse_docs_list A [e] sm2 (PDict []) path = Inr sm3 \<and> root sm3 = root sm2
        \<and> docs sm3 = docs sm2 @ new \<and> list_all2 entry_eq (flat T) new"
proof (induction T arbitrary: e sm2 path)
  case (DTree d cs)
  from DTree.prems(1) have r: "rt A (DTree d cs) FILE_KEY e"
    and mf: "map_of e FILE_KEY = Some (PStr (docname d))"
    by (simp_all add: child_rel_def root_name_def)
  from rt_DTreeD[OF r] obtain ys where
    pd: "\<And>path. \<exists>d'. parse_doc_item A e (PDict []) path FILE_KEY = Inr (d', ys) \<and> doc_eq d d'"
    and cr: "list_all2 (child_rel A) cs ys"
    by blast
  let ?cp = "path @ docname d @ ''/''"
  from pd[of ?cp] obtain d' where
    p: "parse_doc_item A e (PDict []) ?cp FILE_KEY = Inr (d', ys)" and de: "doc_eq d d'"
    by blast
  have dn: "docname d' = docname d" using de by (simp add: doc_eq_def)
  have notin: "sm_lookup sm2 (docname d) = None"
    using DTree.prems(2) by (simp add: names_DTree sm_lookup_None_iff)
  let ?sm = "sm_setitem sm2 (docname d) d'"
  have ds: "docs ?sm = docs sm2 @ [(docname d, d')]" by (rule docs_setitem_fresh[OF notin])
  have dd: "distinct (map fst (docs ?sm) @ concat (map names cs))"
    using DTree.prems(2) by (simp add: ds names_DTree)
  have single: "\<And>c e sm2 path. c \<in> set cs \<Longrightarrow> child_rel A c e \<Longrightarrow>
             distinct (map fst (docs sm2) @ names c) \<Longrightarrow>
             \<exists>sm3 new. parse_docs_list A [e] sm2 (PDict []) path = Inr sm3 \<and> root sm3 = root sm2
                \<and> docs sm3 = docs sm2 @ new \<and> list_all2 entry_eq (flat c) new"
    using DTree.IH by blast
  from reparse_list[OF single cr dd, of ?cp] obtain sm3 new where
    p3: "parse_docs_list A ys ?sm (PDict []) ?cp = Inr sm3" and r3: "root sm3 = root ?sm"
    and d3: "docs sm3 = docs ?sm @ new" and e3: "list_all2 entry_eq (concat (map flat cs)) new"
    by blast
  have "parse_docs_list A [e] sm2 (PDict []) path = Inr sm3"
    using mf notin p p3 dn
    by (simp add: parse_docs_list.simps sm_contains_def py_str_def)
  moreover have "docs sm3 = docs sm2 @ ((docname d, d') # new)" by (simp add: d3 ds)
  moreover have "list_all2 entry_eq (flat (DTree d cs)) ((docname d, d') # new)"
    using e3 de by (simp add: entry_eq_def)
  ultimately show ?case using r3
    by (intro exI[of _ sm3] exI[of _ "(docname d, d') # new"]) simp
qed

lemma parse_doc_item_meta:
  assumes eq: "\<And>k. k \<noteq> ''meta'' \<Longrightarrow> map_of y k = map_of y0 k" and fk: "fk \<noteq> ''meta''"
  shows "parse_doc_item A y df path fk = parse_doc_item A y0 df path fk"
proof -
  have hk: "has_key y k = has_key y0 k" if "k \<noteq> ''meta''" for k
    using eq[OF that] by (simp add: has_key_def)
  have dg: "dict_get y k = dict_get y0 k" if "k \<noteq> ''meta''" for k
    using eq[OF that] by (simp add: dict_get_def)
  have i: "dict_get y DEFAULT_ITEMS_KEY = dict_get y0 DEFAULT_ITEMS_KEY"
    and s: "dict_get y DEFAULT_SUBTREES_KEY = dict_get y0 DEFAULT_SUBTREES_KEY"
    and hi: "has_key y DEFAULT_ITEMS_KEY = has_key y0 DEFAULT_ITEMS_KEY"
    and hs: "has_key y DEFAULT_SUBTREES_KEY = has_key y0 DEFAULT_SUBTREES_KEY"
    and ot: "map_of y ''options'' = map_of y0 ''options''"
    and ti: "dict_get y ''title'' = dict_get y0 ''title''"
    by (simp_all add: hk dg eq key_defs)
  have sd: "subtrees_data_of y path = subtrees_data_of y0 path"
    unfolding subtrees_data_of_def i s hi hs ot ..
  show ?thesis
    unfolding parse_doc_item_def sd hk[OF fk] dg[OF fk] ti ..
qed

lemma create_toc_dict_ok:
  assumes "docitem_to_dict A sm True ''root'' {} (root sm) = Inr (y0, P)"
    and "ser_meta_ok (meta sm)"
  shows "\<exists>y. create_toc_dict A sm True = Inr y \<and> (\<forall>k. k \<noteq> ''meta'' \<longrightarrow> map_of y k = map_of y0 k)"
  using assms
  by (cases "meta sm") (auto simp: create_toc_dict_def ser_meta_ok_def update_conv')

subsection \<open>The round trip of \<^verbatim>\<open>parse_toc_data\<close> and \<^verbatim>\<open>create_toc_dict\<close>\<close>

text \<open>
  C1 (as amended). For every input on which parsing succeeds and whose metadata is
  absent, falsy, a mapping or a list, serializing the site map with \<^verbatim>\<open>skip_defaults\<close> true
  succeeds, and parsing the output succeeds with a site map equal to the first one by
  docnames, titles, items and grouping options.
\<close>

theorem C1_roundtrip:
  assumes "parse_toc_data A x = Inr sm" and "ser_meta_ok (meta sm)"
  shows "\<exists>y sm'. create_toc_dict A sm True = Inr y \<and> parse_toc_data A (PDict y) = Inr sm'
           \<and> site_map_eq sm sm'"
proof -
  from parse_toc_data_structure[OF assms(1)] obtain T where
    wf: "wf_tree A T" and ds: "docs sm = flat T" and rs: "root sm = root_doc T"
    and dist: "distinct (names T)"
    by blast
  obtain d cs where T: "T = DTree d cs" by (cases T)
  have look_all: "\<forall>kd \<in> set (flat T). sm_lookup sm (fst kd) = Some (snd kd)"
    using dist by (auto simp: sm_lookup_def ds names_def)
  have sub: "set (flat c) \<subseteq> set (flat T)" if "c \<in> set cs" for c
    using that T by auto
  have IH: "ser_ok A sm c" if c: "c \<in> set cs" for c
  proof (rule tree_serializes)
    show "wf_tree A c" using wf T c by (simp add: list_all_iff)
    show "distinct (names c)" using dist T c
      by (auto simp: names_DTree intro: distinct_concat_mem[of "map names cs"])
    show "\<forall>kd \<in> set (flat c). sm_lookup sm (fst kd) = Some (snd kd)"
      using look_all sub[OF c] by blast
  qed
  have look: "sm_lookup sm (root_name c) = Some (root_doc c)" if c: "c \<in> set cs" for c
    using look_all sub[OF c] root_in_flat[of c] by fastforce
  from wf T have nm: "map root_name cs = file_names d" and ok: "doc_ok A d" by auto
  have fk: "''root'' = ''root'' \<or> ''root'' = ''file''" by simp
  have disj: "{} \<inter> set (names (DTree d cs)) = {}" by simp
  from node_serializes[OF IH nm ok look dist[unfolded T] disj fk] obtain y0 where
    ser: "docitem_to_dict A sm True ''root'' {} d = Inr (y0, {} \<union> set (names (DTree d cs)))"
    and r: "rt A (DTree d cs) ''root'' y0"
    and keys: "\<And>k. k \<notin> {''root'', ''title'', DEFAULT_ITEMS_KEY, DEFAULT_SUBTREES_KEY, ''options''}
                  \<Longrightarrow> map_of y0 k = None"
    by blast
  have rd: "root sm = d" using rs T by simp
  from create_toc_dict_ok[OF ser[folded rd] assms(2)] obtain y where
    cy: "create_toc_dict A sm True = Inr y"
    and yk: "\<And>k. k \<noteq> ''meta'' \<Longrightarrow> map_of y k = map_of y0 k"
    by blast
  have nodef: "map_of y ''defaults'' = None"
    using yk[of "''defaults''"] keys[of "''defaults''"] by (simp add: key_defs)
  from rt_DTreeD[OF r] obtain ys where
    pd: "\<And>path. \<exists>d'. parse_doc_item A y0 (PDict []) path ''root'' = Inr (d', ys) \<and> doc_eq d d'"
    and cr: "list_all2 (child_rel A) cs ys"
    by blast
  from pd[of "''/''"] obtain d' where
    p0: "parse_doc_item A y0 (PDict []) ''/'' ''root'' = Inr (d', ys)" and de: "doc_eq d d'"
    by blast
  have p: "parse_doc_item A y (PDict []) ''/'' ''root'' = Inr (d', ys)"
    using parse_doc_item_meta[of y y0 "''root''" A "PDict []" "''/''"] yk p0 by simp
  let ?sm0 = "SiteMap_new d' (dict_get y ''meta'')"
  have dn: "docname d' = docname d" using de by (simp add: doc_eq_def)
  have dd: "distinct (map fst (docs ?sm0) @ concat (map names cs))"
    using dist T by (simp add: SiteMap_new_def dn names_DTree)
  from reparse_list[OF reparse_tree cr dd, of "''/''"] obtain sm3 new where
    p3: "parse_docs_list A ys ?sm0 (PDict []) ''/'' = Inr sm3" and r3: "root sm3 = root ?sm0"
    and d3: "docs sm3 = docs ?sm0 @ new" and e3: "list_all2 entry_eq (concat (map flat cs)) new"
    by blast
  have reparse: "parse_toc_data A (PDict y) = Inr sm3"
    by (simp add: parse_toc_data_def nodef p p3)
  have "doc_eq (root sm) (root sm3)" using r3 rd de by (simp add: SiteMap_new_def)
  moreover have "list_all2 entry_eq (docs sm) (docs sm3)"
    using e3 de dn by (simp add: ds T d3 SiteMap_new_def entry_eq_def)
  then have "list_all2 (\<lambda>kd kd'. fst kd = fst kd' \<and> doc_eq (snd kd) (snd kd')) (docs sm) (docs sm3)"
    by (rule list_all2_mono) (simp add: entry_eq_def)
  ultimately have "site_map_eq sm sm3" by (simp add: site_map_eq_def)
  with cy reparse show ?thesis by blast
qed

theorem C1_roundtrip_witness:
  "parse_toc_data api0 c1_input = Inr (c1_site_map (PInt 0))
   \<and> ser_meta_ok (meta (c1_site_map (PInt 0)))
   \<and> create_toc_dict api0 (c1_site_map (PInt 0)) True = Inr c1_output
   \<and> parse_toc_data api0 (PDict c1_output) = Inr (c1_site_map (PBool False))
   \<and> site_map_eq (c1_site_map (PInt 0)) (c1_site_map (PBool False))"
proof -
  have p: "parse_toc_data api0 c1_input = Inr (c1_site_map (PInt 0))"
    by (simp add: c1_input_def c1_site_map_def c1_toc_def parse_defs key_defs api0_def)
  have m: "ser_meta_ok (meta (c1_site_map (PInt 0)))"
    by (simp add: ser_meta_ok_def c1_site_map_def)
  have s: "create_toc_dict api0 (c1_site_map (PInt 0)) True = Inr c1_output"
    by (simp add: create_toc_dict_def c1_site_map_def c1_toc_def c1_output_def
        docitem_to_dict.simps sm_lookup_def doc_header_def toctree_options_def getattr_def
        TOCTREE_OPTIONS_def api0_def apply_shorthand_def has_key_def dict_get_def key_defs)
  have r: "parse_toc_data api0 (PDict c1_output) = Inr (c1_site_map (PBool False))"
    by (simp add: c1_output_def c1_site_map_def c1_toc_def parse_defs key_defs api0_def)
  from C1_roundtrip[OF p m] s r
  have "site_map_eq (c1_site_map (PInt 0)) (c1_site_map (PBool False))" by simp
  with p m s r show ?thesis by simp
qed

text \<open>
  C1 as stated covers every input that parses. With \<^verbatim>\<open>meta: "x"\<close> the parse succeeds and
  the serializer raises \<open>AttributeError\<close> at \<^verbatim>\<open>site_map.meta.copy()\<close>: a string has no
  \<^verbatim>\<open>copy\<close>.
\<close>

theorem C1_string_meta_counterexample:
  "parse_toc_data api0 c1_meta_input = Inr c1_meta_site_map
   \<and> create_toc_dict api0 c1_meta_site_map True = Inl (AttributeError ''copy'')"
  by (simp add: c1_meta_input_def c1_meta_site_map_def parse_defs key_defs create_toc_dict_def
      docitem_to_dict.simps doc_header_def)

end
